theory Spec2Isabelle
  imports
    Complex_Main
    "HOL-Library.Signed_Division"
    "HOL-Library.Multiset"
begin

section \<open>JavaScript values used by the ingestor subsystem\<close>

text \<open>
  Buffers are byte strings (\<^typ>\<open>string\<close>), and so are the strings that are only
  stored, compared and concatenated; the strings of the signature verifiers, whose
  characters matter, are lists of UTF-16 code units (see below). Counters, indices and
  event ids are JavaScript numbers that only ever hold small non-negative integers;
  they are modelled as unbounded \<^typ>\<open>nat\<close> and \<^typ>\<open>int\<close> (a double is exact below
  \<open>2^53\<close>). \<open>undefined\<close> in an array cell is \<^term>\<open>None\<close>.
\<close>

datatype js_error = TypeError | RangeError

text \<open>\<open>a % b\<close> on integers: the remainder of truncating division (sign of the dividend).\<close>

definition js_rem :: "int \<Rightarrow> int \<Rightarrow> int" where
  "js_rem a b = a smod b"

text \<open>\<open>arr[i]\<close>: a read outside the array (or of a hole) gives \<open>undefined\<close>.\<close>

definition js_get :: "'a option list \<Rightarrow> int \<Rightarrow> 'a option" where
  "js_get arr i = (if 0 \<le> i \<and> i < int (length arr) then arr ! nat i else None)"

text \<open>\<open>arr[i] = v\<close>: a write past the end extends the array with holes.\<close>

definition js_set :: "'a option list \<Rightarrow> nat \<Rightarrow> 'a \<Rightarrow> 'a option list" where
  "js_set arr i v =
     (if i < length arr then arr[i := Some v]
      else arr @ replicate (i - length arr) None @ [Some v])"


section \<open>Ring buffer (ring-buffer.ts)\<close>

text \<open>
  Source: \<open>src/src/remote/ingestors/ring-buffer.ts\<close>.
  \<open>capacity\<close> is the constructor argument, a positive integer (the subsystem uses
  1..1000); \<open>head\<close> is the next write position and \<open>count\<close> the number of stored items.
\<close>

record 'a RingBuffer =
  capacity :: nat
  buffer :: "'a option list"
  head :: nat
  count :: nat

definition new_RingBuffer :: "nat \<Rightarrow> 'a RingBuffer" where
  "new_RingBuffer c = \<lparr> capacity = c, buffer = replicate c None, head = 0, count = 0 \<rparr>"

definition push :: "'a \<Rightarrow> 'a RingBuffer \<Rightarrow> 'a RingBuffer" where
  "push item rb =
     (let buf = js_set (buffer rb) (head rb) item;
          h = nat (js_rem (int (head rb) + 1) (int (capacity rb)));
          n = (if count rb < capacity rb then count rb + 1 else count rb)
      in rb \<lparr> buffer := buf, head := h, count := n \<rparr>)"

text \<open>
  The \<open>for\<close> loop of \<open>toArray\<close> runs \<open>i\<close> over \<open>0..count-1\<close> and appends
  \<open>buffer[(start + i) % capacity]\<close>; the cast \<open>as T\<close> keeps an \<open>undefined\<close> cell as it is.
\<close>

definition toArray :: "'a RingBuffer \<Rightarrow> 'a option list" where
  "toArray rb =
     (if count rb = 0 then []
      else
        let start = js_rem (int (head rb) - int (count rb) + int (capacity rb)) (int (capacity rb))
        in map (\<lambda>i. js_get (buffer rb) (js_rem (start + int i) (int (capacity rb))))
               [0 ..< count rb])"

definition size_rb :: "'a RingBuffer \<Rightarrow> nat" where
  "size_rb rb = count rb"

definition clear :: "'a RingBuffer \<Rightarrow> 'a RingBuffer" where
  "clear rb = rb \<lparr> buffer := replicate (capacity rb) None, head := 0, count := 0 \<rparr>"

text \<open>A sequence of pushes, first element first.\<close>

definition pushes :: "'a list \<Rightarrow> 'a RingBuffer \<Rightarrow> 'a RingBuffer" where
  "pushes xs rb = foldl (\<lambda>r x. push x r) rb xs"


text \<open>
  \<open>since(afterId)\<close> filters \<open>toArray()\<close>, reading \<open>item.id\<close> of every item: on an
  \<open>undefined\<close> item that read throws a TypeError. \<open>num_id\<close> gives the \<open>id\<close> field of an
  item when it is a number (\<open>typeof id === 'number'\<close>).
\<close>

definition since :: "('a \<Rightarrow> int option) \<Rightarrow> 'a RingBuffer \<Rightarrow> int \<Rightarrow> js_error + 'a option list" where
  "since num_id rb afterId =
     (if None \<in> set (toArray rb) then Inl TypeError
      else Inr (filter (\<lambda>item. case item of
                          None \<Rightarrow> False
                        | Some x \<Rightarrow> (case num_id x of None \<Rightarrow> False | Some i \<Rightarrow> afterId < i))
                       (toArray rb)))"


section \<open>Base ingestor (base-ingestor.js, types.d.ts)\<close>

text \<open>
  Sources: \<open>src/unnamed/part_001\<close> (base-ingestor.js, first part of the file) and
  \<open>src/unnamed/part_002\<close> (types.d.ts). The field \<open>id\<close> of an event is \<open>event_id\<close> here.
\<close>

record 'd IngestedEvent =
  event_id :: int
  receivedAt :: string
  source :: string
  eventType :: string
  data :: 'd

datatype IngestorState = Starting | Connected | Reconnecting | Stopped | Error

datatype IngestorType = Websocket | Webhook | Poll

definition DEFAULT_BUFFER_SIZE :: nat where
  "DEFAULT_BUFFER_SIZE = 200"

text \<open>
  The field \<open>ring\<close> is the class's \<open>buffer\<close>. \<open>emitted\<close> records, in order, the events
  handed to \<open>emit('event', event)\<close>.
\<close>

record 'd BaseIngestor =
  connectionAlias :: string
  ingestorType :: IngestorType
  secrets :: "string \<rightharpoonup> string"
  state :: IngestorState
  ring :: "'d IngestedEvent RingBuffer"
  totalEventsReceived :: int
  lastEventAt :: "string option"
  errorMessage :: "string option"
  emitted :: "'d IngestedEvent list"

text \<open>The optional constructor argument \<open>bufferSize\<close> defaults to \<open>DEFAULT_BUFFER_SIZE\<close>.\<close>

definition buffer_capacity :: "nat option \<Rightarrow> nat" where
  "buffer_capacity bufferSize = (case bufferSize of None \<Rightarrow> DEFAULT_BUFFER_SIZE | Some n \<Rightarrow> n)"

definition new_BaseIngestor ::
  "string \<Rightarrow> IngestorType \<Rightarrow> (string \<rightharpoonup> string) \<Rightarrow> nat option \<Rightarrow> 'd BaseIngestor" where
  "new_BaseIngestor alias ty secs bufferSize =
     \<lparr> connectionAlias = alias, ingestorType = ty, secrets = secs, state = Stopped,
       ring = new_RingBuffer (buffer_capacity bufferSize), totalEventsReceived = 0,
       lastEventAt = None, errorMessage = None, emitted = [] \<rparr>"

text \<open>\<open>now\<close> is the value of \<open>new Date().toISOString()\<close> at the call.\<close>

definition pushEvent ::
  "string \<Rightarrow> 'd \<Rightarrow> string \<Rightarrow> ('d, 'z) BaseIngestor_scheme \<Rightarrow> ('d, 'z) BaseIngestor_scheme" where
  "pushEvent evType d now s =
     (let event = \<lparr> event_id = totalEventsReceived s, receivedAt = now,
                     source = connectionAlias s, eventType = evType, data = d \<rparr>
      in s \<lparr> totalEventsReceived := totalEventsReceived s + 1,
             ring := push event (ring s),
             lastEventAt := Some now,
             emitted := emitted s @ [event] \<rparr>)"

definition getEvents ::
  "('d, 'z) BaseIngestor_scheme \<Rightarrow> int \<Rightarrow> js_error + 'd IngestedEvent option list" where
  "getEvents s afterId =
     (if afterId < 0 then Inr (toArray (ring s))
      else since (\<lambda>e. Some (event_id e)) (ring s) afterId)"

text \<open>
  What may happen to an ingestor during its lifetime, as far as its buffer and counters
  are concerned: a subclass calls \<open>pushEvent\<close> (which evicts when the ring is full), or
  the ring is cleared with \<open>clear()\<close>.
\<close>

datatype 'd ingestor_call = PushEvent string 'd string | RingClear

fun apply_call :: "('d, 'z) BaseIngestor_scheme \<Rightarrow> 'd ingestor_call \<Rightarrow> ('d, 'z) BaseIngestor_scheme" where
  "apply_call s (PushEvent evType d now) = pushEvent evType d now s"
| "apply_call s RingClear = s \<lparr> ring := clear (ring s) \<rparr>"

definition run_calls :: "'d ingestor_call list \<Rightarrow> ('d, 'z) BaseIngestor_scheme \<Rightarrow> ('d, 'z) BaseIngestor_scheme" where
  "run_calls calls s = foldl apply_call s calls"


section \<open>Ingestor manager (manager.js)\<close>

text \<open>Source: \<open>src/unnamed/part_001\<close> (manager.js, second part of the file).\<close>

text \<open>
  \<open>Array.prototype.sort(cmp)\<close> is stable; \<open>undefined\<close> elements go to the end without
  being compared. For a consistent comparator the stable sorted arrangement is unique
  (lemma \<open>sort_by_unique\<close> below), so insertion from the right (each element before the
  first one that is not smaller) computes it.
\<close>

fun insert_by :: "('a \<Rightarrow> 'a \<Rightarrow> int) \<Rightarrow> 'a \<Rightarrow> 'a list \<Rightarrow> 'a list" where
  "insert_by cmp x [] = [x]"
| "insert_by cmp x (y # ys) = (if cmp x y \<le> 0 then x # y # ys else y # insert_by cmp x ys)"

definition sort_by :: "('a \<Rightarrow> 'a \<Rightarrow> int) \<Rightarrow> 'a list \<Rightarrow> 'a list" where
  "sort_by cmp xs = foldr (insert_by cmp) xs []"

definition js_sort :: "('a \<Rightarrow> 'a \<Rightarrow> int) \<Rightarrow> 'a option list \<Rightarrow> 'a option list" where
  "js_sort cmp xs =
     map Some (sort_by cmp (List.map_filter (\<lambda>x. x) xs)) @ filter (\<lambda>x. x = None) xs"

definition startsWith :: "string \<Rightarrow> string \<Rightarrow> bool" where
  "startsWith key pre = (take (length pre) key = pre)"

text \<open>
  The registry is a \<open>Map\<close>, iterated in insertion order: an association list.
  \<open>localeCompare\<close> is the runtime's string comparison. The loop appends the events of each
  ingestor whose key starts with \<open>callerAlias + ':'\<close>; an exception of \<open>getEvents\<close>
  propagates.
\<close>

fun collect_events ::
  "string \<Rightarrow> int \<Rightarrow> (string \<times> ('d, 'z) BaseIngestor_scheme) list
     \<Rightarrow> js_error + 'd IngestedEvent option list" where
  "collect_events pre afterId [] = Inr []"
| "collect_events pre afterId ((key, ingestor) # rest) =
     (if startsWith key pre then
        (case getEvents ingestor afterId of
           Inl e \<Rightarrow> Inl e
         | Inr evs \<Rightarrow> (case collect_events pre afterId rest of
                         Inl e \<Rightarrow> Inl e
                       | Inr later \<Rightarrow> Inr (evs @ later)))
      else collect_events pre afterId rest)"

definition getAllEvents ::
  "(string \<Rightarrow> string \<Rightarrow> int) \<Rightarrow> (string \<times> ('d, 'z) BaseIngestor_scheme) list \<Rightarrow> string \<Rightarrow> int
     \<Rightarrow> js_error + 'd IngestedEvent option list" where
  "getAllEvents localeCompare ingestors callerAlias afterId =
     (case collect_events (callerAlias @ '':'') afterId ingestors of
        Inl e \<Rightarrow> Inl e
      | Inr events \<Rightarrow>
          Inr (js_sort (\<lambda>a b. localeCompare (receivedAt a) (receivedAt b)) events))"


section \<open>GitHub webhook ingestor (webhook-ingestor.ts)\<close>

text \<open>
  Source: \<open>src/src/remote/ingestors/webhook/webhook-ingestor.ts\<close>; the config type is in
  \<open>src/unnamed/part_002\<close>.
\<close>

record WebhookIngestorConfig =
  path :: string
  signatureHeader :: "string option"
  signatureSecret :: "string option"

text \<open>
  Modelled from the spec: the type \<open>GitHubWebhookHeaders\<close> is declared in \<open>./types.js\<close>,
  which is not among the sources. Its fields are the three that \<open>handleWebhook\<close> reads:
  the event type (from \<open>X-GitHub-Event\<close>), the signature (from \<open>X-Hub-Signature-256\<close>) and
  the delivery id (from \<open>X-GitHub-Delivery\<close>), the last two optional.
\<close>

record GitHubWebhookHeaders =
  event :: string
  signature :: "string option"
  deliveryId :: "string option"

text \<open>The \<open>data\<close> of a pushed event: \<open>{ deliveryId, event, payload }\<close>.\<close>

record 'j GitHubEventData =
  deliveryId_d :: "string option"
  event_d :: string
  payload :: 'j

text \<open>\<open>signatureHeaderName\<close> is the private field \<open>signatureHeader\<close> of the class.\<close>

record 'j GitHubWebhookIngestor = "'j GitHubEventData BaseIngestor" +
  webhookConfig :: WebhookIngestorConfig
  webhookPath :: string
  signatureSecretName :: "string option"
  signatureHeaderName :: "string option"
  eventFilter :: "string list"

record WebhookResult =
  accepted :: bool
  reason :: "string option"

text \<open>An optional string in a condition: \<open>undefined\<close> and \<open>""\<close> are falsy.\<close>

definition truthy :: "string option \<Rightarrow> bool" where
  "truthy v = (case v of None \<Rightarrow> False | Some s \<Rightarrow> s \<noteq> [])"

text \<open>
  The resolved secrets are a plain object (\<open>Record<string, string>\<close>). The field
  \<open>secrets\<close> holds its own properties; the read \<open>this.secrets[name]\<close> of a name that is
  not an own property continues in \<open>Object.prototype\<close> and finds the members every
  object inherits: eleven functions and, under \<open>__proto__\<close>, the prototype object
  itself. Only a name found in neither place gives \<open>undefined\<close>.
\<close>

datatype js_value = Undefined | String_value string | Inherited_member string

definition Object_prototype_members :: "string list" where
  "Object_prototype_members =
     [''constructor'', ''__defineGetter__'', ''__defineSetter__'', ''hasOwnProperty'',
      ''__lookupGetter__'', ''__lookupSetter__'', ''isPrototypeOf'', ''propertyIsEnumerable'',
      ''toString'', ''valueOf'', ''__proto__'', ''toLocaleString'']"

definition get_property :: "(string \<rightharpoonup> string) \<Rightarrow> string \<Rightarrow> js_value" where
  "get_property obj name =
     (case obj name of
        Some v \<Rightarrow> String_value v
      | None \<Rightarrow> if name \<in> set Object_prototype_members then Inherited_member name else Undefined)"

text \<open>\<open>!v\<close>: \<open>undefined\<close> and \<open>""\<close> are falsy, functions and objects are truthy.\<close>

definition falsy :: "js_value \<Rightarrow> bool" where
  "falsy v = (case v of Undefined \<Rightarrow> True | String_value s \<Rightarrow> s = [] | Inherited_member m \<Rightarrow> False)"

definition new_GitHubWebhookIngestor ::
  "string \<Rightarrow> (string \<rightharpoonup> string) \<Rightarrow> WebhookIngestorConfig \<Rightarrow> nat option \<Rightarrow> 'j GitHubWebhookIngestor" where
  "new_GitHubWebhookIngestor alias secs cfg bufferSize =
     \<lparr> connectionAlias = alias, ingestorType = Webhook, secrets = secs, state = Stopped,
       ring = new_RingBuffer (buffer_capacity bufferSize),
       totalEventsReceived = 0, lastEventAt = None, errorMessage = None, emitted = [],
       webhookConfig = cfg,
       webhookPath = path cfg,
       signatureSecretName = signatureSecret cfg,
       signatureHeaderName = signatureHeader cfg,
       eventFilter = [] \<rparr>"

definition start :: "'j GitHubWebhookIngestor \<Rightarrow> 'j GitHubWebhookIngestor" where
  "start s = s \<lparr> state := Connected \<rparr>"

definition stop :: "'j GitHubWebhookIngestor \<Rightarrow> 'j GitHubWebhookIngestor" where
  "stop s = s \<lparr> state := Stopped \<rparr>"

text \<open>
  \<open>handleWebhook(headers, rawBody)\<close>. The two helpers of \<open>./types.js\<close>, which is not among
  the sources, are parameters: \<open>extractGitHubHeaders\<close> and
  \<open>verifyGitHubSignature rawBody signature secret\<close>. The verifier is handed whatever the
  lookup of the secret gave, and it either returns a boolean or raises; \<open>handleWebhook\<close>
  has no handler around the call, so an error raised there is raised by \<open>handleWebhook\<close>,
  before anything is pushed. \<open>JSON_parse\<close> is \<open>JSON.parse(rawBody.toString('utf-8'))\<close>, \<^term>\<open>None\<close> when it
  throws; \<open>now\<close> is the clock reading \<open>pushEvent\<close> takes. The result is the outcome of
  the call (the raised error or the returned object) and the ingestor after the call.
  Console output is not part of the state.
\<close>

definition handleWebhook ::
  "('h \<Rightarrow> GitHubWebhookHeaders) \<Rightarrow> (string \<Rightarrow> string \<Rightarrow> js_value \<Rightarrow> js_error + bool)
     \<Rightarrow> (string \<Rightarrow> 'j option) \<Rightarrow> string \<Rightarrow> 'h \<Rightarrow> string \<Rightarrow> 'j GitHubWebhookIngestor
     \<Rightarrow> (js_error + WebhookResult) \<times> 'j GitHubWebhookIngestor" where
  "handleWebhook extractGitHubHeaders verifyGitHubSignature JSON_parse now headers rawBody s =
     (let ghHeaders = extractGitHubHeaders headers;
          checked =
            (if truthy (signatureSecretName s) \<and> truthy (signatureHeaderName s) then
               (let secret = get_property (secrets s) (the (signatureSecretName s)) in
                if falsy secret then Inr (Some ''Signature secret not configured'')
                else
                  (case signature ghHeaders of
                     None \<Rightarrow> Inr (Some ''Missing signature header'')
                   | Some sig \<Rightarrow>
                       if sig = [] then Inr (Some ''Missing signature header'')
                       else
                         (case verifyGitHubSignature rawBody sig secret of
                            Inl e \<Rightarrow> Inl e
                          | Inr verified \<Rightarrow>
                              if \<not> verified then Inr (Some ''Signature verification failed'')
                              else Inr None)))
             else Inr None)
      in case checked of
           Inl e \<Rightarrow> (Inl e, s)
         | Inr (Some r) \<Rightarrow> (Inr \<lparr> accepted = False, reason = Some r \<rparr>, s)
         | Inr None \<Rightarrow>
             (case JSON_parse rawBody of
                None \<Rightarrow> (Inr \<lparr> accepted = False, reason = Some ''Invalid JSON body'' \<rparr>, s)
              | Some parsed \<Rightarrow>
                  let evType = event ghHeaders in
                  if eventFilter s \<noteq> [] \<and> evType \<notin> set (eventFilter s)
                  then (Inr \<lparr> accepted = True, reason = Some ''Filtered out'' \<rparr>, s)
                  else (Inr \<lparr> accepted = True, reason = None \<rparr>,
                        pushEvent evType
                          \<lparr> deliveryId_d = deliveryId ghHeaders, event_d = evType, payload = parsed \<rparr>
                          now s)))"

text \<open>The call returned an object with \<open>accepted: true\<close>.\<close>

definition returns_accepted :: "js_error + WebhookResult \<Rightarrow> bool" where
  "returns_accepted r = (case r of Inl e \<Rightarrow> False | Inr res \<Rightarrow> accepted res)"


section \<open>Runtime functions used by signature verification\<close>

text \<open>
  The verifiers depend on the characters of their strings (trimming, hexadecimal and
  base64 decoding), so a string is here the list of its UTF-16 code units, and \<open>js\<close>
  gives the string of an ASCII literal. A \<open>Buffer\<close> is a byte string (\<^typ>\<open>string\<close>).
\<close>

type_synonym js_string = "nat list"

definition js :: "string \<Rightarrow> js_string" where
  "js s = map of_char s"

text \<open>
  A number is \<open>NaN\<close>, an infinity or a finite value; \<open>-0\<close> is not told apart from \<open>0\<close>
  (the verifiers subtract, take absolute values, compare and print numbers, and none
  of these tells the two zeros apart).
\<close>

datatype js_number = NaN | Finite real | PosInf | NegInf

datatype hash_alg = Sha1 | Sha256

text \<open>
  The functions of the JavaScript runtime and of \<open>node:crypto\<close> that are left as
  parameters of the model:
  \<^item> \<open>Number_of s\<close> is \<open>Number(s)\<close>;
  \<^item> \<open>String_of n\<close> is the text of a number inside a template literal;
  \<^item> \<open>toString_utf8 b\<close> is \<open>b.toString('utf-8')\<close>;
  \<^item> \<open>hmac alg key msg\<close> is the digest, as bytes, of
    \<open>crypto.createHmac(alg, key).update(msg)\<close>;
  \<^item> \<open>to_double x\<close> is the double that the result \<open>x\<close> of an arithmetic operation is
    rounded to (an infinity on overflow).
  The codecs (\<open>digest('hex')\<close>, \<open>digest('base64')\<close>, \<open>Buffer.from(s, 'hex')\<close> and
  \<open>Buffer.from(s, 'base64')\<close>) are defined below.
\<close>

record node_runtime =
  Number_of :: "js_string \<Rightarrow> js_number"
  String_of :: "js_number \<Rightarrow> js_string"
  toString_utf8 :: "string \<Rightarrow> js_string"
  hmac :: "hash_alg \<Rightarrow> js_string \<Rightarrow> js_string \<Rightarrow> string"
  to_double :: "real \<Rightarrow> js_number"




text \<open>\<open>crypto.timingSafeEqual(a, b)\<close> throws a RangeError when the lengths differ.\<close>

definition timingSafeEqual :: "string \<Rightarrow> string \<Rightarrow> js_error + bool" where
  "timingSafeEqual a b = (if length a \<noteq> length b then Inl RangeError else Inr (a = b))"








text \<open>
  \<open>digest('base64')\<close>: the standard alphabet (\<open>A-Z\<close>, \<open>a-z\<close>, \<open>0-9\<close>, \<open>+\<close>, \<open>/\<close>), four
  characters for each three bytes, padded with \<open>=\<close>.
\<close>

definition base64_char :: "nat \<Rightarrow> nat" where
  "base64_char n =
     (if n < 26 then 65 + n
      else if n < 52 then 71 + n
      else if n < 62 then n - 4
      else if n = 62 then 43
      else 47)"

fun base64_encode :: "string \<Rightarrow> js_string" where
  "base64_encode [] = []"
| "base64_encode [a] =
     [base64_char (of_char a div 4), base64_char ((of_char a mod 4) * 16), 61, 61]"
| "base64_encode [a, b] =
     [base64_char (of_char a div 4),
      base64_char ((of_char a mod 4) * 16 + of_char b div 16),
      base64_char ((of_char b mod 16) * 4), 61]"
| "base64_encode (a # b # c # rest) =
     [base64_char (of_char a div 4),
      base64_char ((of_char a mod 4) * 16 + of_char b div 16),
      base64_char ((of_char b mod 16) * 4 + of_char c div 64),
      base64_char (of_char c mod 64)] @ base64_encode rest"

text \<open>
  \<open>Buffer.from(s, 'base64')\<close> never throws on a string either. It reads each character
  through its low byte, stops at the first \<open>=\<close>, skips every character outside the
  alphabet (which, for decoding, also holds the two characters \<open>-\<close> and \<open>_\<close> of the
  URL-safe variant), and turns the six-bit values that remain into bytes: three bytes
  for each four values, one byte for two values left at the end, two bytes for three.
\<close>

definition unbase64 :: "nat \<Rightarrow> nat option" where
  "unbase64 c =
     (if 65 \<le> c \<and> c \<le> 90 then Some (c - 65)
      else if 97 \<le> c \<and> c \<le> 122 then Some (c - 71)
      else if 48 \<le> c \<and> c \<le> 57 then Some (c + 4)
      else if c = 43 \<or> c = 45 then Some 62
      else if c = 47 \<or> c = 95 then Some 63
      else None)"

fun decode_sextets :: "nat list \<Rightarrow> string" where
  "decode_sextets (p # q # r # s # rest) =
     [char_of (p * 4 + q div 16), char_of ((q mod 16) * 16 + r div 4),
      char_of ((r mod 4) * 64 + s)] @ decode_sextets rest"
| "decode_sextets [p, q, r] = [char_of (p * 4 + q div 16), char_of ((q mod 16) * 16 + r div 4)]"
| "decode_sextets [p, q] = [char_of (p * 4 + q div 16)]"
| "decode_sextets rest = []"

definition base64_decode :: "js_string \<Rightarrow> string" where
  "base64_decode s =
     decode_sextets
       (List.map_filter (\<lambda>c. unbase64 (c mod 256)) (takeWhile (\<lambda>c. c mod 256 \<noteq> 61) s))"


section \<open>Stripe signatures (stripe-types.ts)\<close>

text \<open>Source: \<open>src/unnamed/part_004\<close>.\<close>

definition STRIPE_SIGNATURE_HEADER :: string where
  "STRIPE_SIGNATURE_HEADER = ''stripe-signature''"

definition DEFAULT_TIMESTAMP_TOLERANCE :: js_number where
  "DEFAULT_TIMESTAMP_TOLERANCE = Finite 300"








section \<open>Trello signatures (trello-types.ts)\<close>

text \<open>Source: \<open>src/src/remote/ingestors/webhook/trello-types.ts\<close>.\<close>

definition TRELLO_SIGNATURE_HEADER :: string where
  "TRELLO_SIGNATURE_HEADER = ''x-trello-webhook''"

text \<open>
  Neither \<open>Buffer.from\<close> throws and the length test comes before \<open>timingSafeEqual\<close>, so
  the \<open>catch\<close> branch is reached by no input; it is the \<open>Inl\<close> case below.
\<close>

definition verifyTrelloSignature ::
  "node_runtime \<Rightarrow> string \<Rightarrow> js_string \<Rightarrow> js_string \<Rightarrow> js_string \<Rightarrow> bool" where
  "verifyTrelloSignature rt rawBody signatureHeader_v secret callbackUrl =
     (let content = toString_utf8 rt rawBody @ callbackUrl;
          computedSig = base64_encode (hmac rt Sha1 secret content);
          receivedBuf = base64_decode signatureHeader_v;
          computedBuf = base64_decode computedSig
      in if length receivedBuf = length computedBuf then
           (case timingSafeEqual receivedBuf computedBuf of
              Inl e \<Rightarrow> False
            | Inr eq \<Rightarrow> eq)
         else False)"


section \<open>Invariants and example values\<close>

text \<open>The shape of a ring buffer built by the constructor for a positive capacity.\<close>

definition rb_inv :: "'a RingBuffer \<Rightarrow> bool" where
  "rb_inv rb = (0 < capacity rb \<and> length (buffer rb) = capacity rb \<and>
                head rb < capacity rb \<and> count rb \<le> capacity rb)"

text \<open>
  What every ingestor satisfies after its constructor and any calls: the buffered items
  are all defined, their ids ascend, and all are below the counter.
\<close>

definition ingestor_inv :: "('d, 'z) BaseIngestor_scheme \<Rightarrow> bool" where
  "ingestor_inv s =
     (rb_inv (ring s)
      \<and> None \<notin> set (toArray (ring s))
      \<and> sorted_wrt (<) (map (\<lambda>x. event_id (the x)) (toArray (ring s)))
      \<and> list_all (\<lambda>x. event_id (the x) < totalEventsReceived s) (toArray (ring s)))"

definition ids_inv :: "('d, 'z) BaseIngestor_scheme \<Rightarrow> bool" where
  "ids_inv s = (sorted_wrt (<) (map event_id (emitted s))
                \<and> list_all (\<lambda>e. event_id e < totalEventsReceived s) (emitted s))"

text \<open>The events in the ring, oldest first.\<close>

definition buffered_events :: "('d, 'z) BaseIngestor_scheme \<Rightarrow> 'd IngestedEvent list" where
  "buffered_events s = map the (toArray (ring s))"

text \<open>
  Concrete requests and helper functions for the examples: headers that are already
  extracted, a verifier that rejects everything, one that accepts the signature
  \<open>secret + body\<close> for a secret that is a string (and raises a type error for any other
  value), and a parser that accepts bodies starting with a brace.
\<close>

definition headers_as_given :: "GitHubWebhookHeaders \<Rightarrow> GitHubWebhookHeaders" where
  "headers_as_given h = h"

definition reject_all :: "string \<Rightarrow> string \<Rightarrow> js_value \<Rightarrow> js_error + bool" where
  "reject_all rawBody sig secret = Inr False"

definition accept_keyed :: "string \<Rightarrow> string \<Rightarrow> js_value \<Rightarrow> js_error + bool" where
  "accept_keyed rawBody sig secret =
     (case secret of String_value k \<Rightarrow> Inr (sig = k @ rawBody) | _ \<Rightarrow> Inl TypeError)"

definition parse_object :: "string \<Rightarrow> string option" where
  "parse_object rawBody = (if take 1 rawBody = ''{'' then Some rawBody else None)"

definition no_secrets :: "string \<rightharpoonup> string" where
  "no_secrets = Map.empty"

definition github_secrets :: "string \<rightharpoonup> string" where
  "github_secrets = [''GITHUB_WEBHOOK_SECRET'' \<mapsto> ''secret123'']"

definition header_only_config :: WebhookIngestorConfig where
  "header_only_config =
     \<lparr> path = ''github'', signatureHeader = Some ''X-Hub-Signature-256'', signatureSecret = None \<rparr>"

definition signed_config :: WebhookIngestorConfig where
  "signed_config =
     \<lparr> path = ''github'', signatureHeader = Some ''X-Hub-Signature-256'',
       signatureSecret = Some ''GITHUB_WEBHOOK_SECRET'' \<rparr>"

definition empty_header_config :: WebhookIngestorConfig where
  "empty_header_config =
     \<lparr> path = ''github'', signatureHeader = Some '''',
       signatureSecret = Some ''GITHUB_WEBHOOK_SECRET'' \<rparr>"

definition inherited_name_config :: WebhookIngestorConfig where
  "inherited_name_config =
     \<lparr> path = ''github'', signatureHeader = Some ''X-Hub-Signature-256'',
       signatureSecret = Some ''constructor'' \<rparr>"

definition unsigned_push :: GitHubWebhookHeaders where
  "unsigned_push = \<lparr> event = ''push'', signature = None, deliveryId = None \<rparr>"

definition signed_push :: GitHubWebhookHeaders where
  "signed_push = \<lparr> event = ''push'', signature = Some ''secret123{}'', deliveryId = Some ''d1'' \<rparr>"





text \<open>
  An example runtime, which agrees with Node.js on the inputs of the examples: \<open>Number\<close>
  on strings of decimal digits (any other string of the examples is not numeric), the
  text of the numbers used, bytes of ASCII text as that text, exact subtraction of
  integers, and the two digests used: HMAC-SHA256 of \<open>1700000000.{}\<close> under the key
  \<open>whsec_test\<close> and HMAC-SHA1 of \<open>{}https://example.com/cb\<close> under the key \<open>secret\<close>.
\<close>

definition is_digit :: "nat \<Rightarrow> bool" where
  "is_digit c = (48 \<le> c \<and> c \<le> 57)"

definition digits_Number :: "js_string \<Rightarrow> js_number" where
  "digits_Number s =
     (if list_all is_digit s
      then Finite (real (foldl (\<lambda>n c. 10 * n + (c - 48)) 0 s))
      else NaN)"

definition example_String :: "js_number \<Rightarrow> js_string" where
  "example_String x =
     (if x = Finite 1700000000 then js ''1700000000'' else if x = Finite 1 then js ''1'' else js ''0'')"

definition as_text :: "string \<Rightarrow> js_string" where
  "as_text b = map of_char b"

definition example_hmac :: "hash_alg \<Rightarrow> js_string \<Rightarrow> js_string \<Rightarrow> string" where
  "example_hmac alg key msg =
     (if alg = Sha256 \<and> key = js ''whsec_test'' \<and> msg = js ''1700000000.{}'' then
        map char_of [53, 73, 80, 36, 244, 239, 63, 148, 229, 169, 62, 34, 34, 21, 68, 196,
                     183, 94, 154, 66, 48, 12, 217, 101, 171, 129, 203, 133, 205, 153, 78, 145 :: nat]
      else if alg = Sha1 \<and> key = js ''secret'' \<and> msg = js ''{}https://example.com/cb'' then
        map char_of [22, 78, 168, 39, 238, 76, 180, 212, 27, 135, 113, 39, 195, 28, 10, 188,
                     113, 176, 118, 156 :: nat]
      else [])"

definition example_runtime :: node_runtime where
  "example_runtime =
     \<lparr> Number_of = digits_Number, String_of = example_String, toString_utf8 = as_text,
       hmac = example_hmac, to_double = Finite \<rparr>"

text \<open>
  A consistent comparison function, as ECMAScript defines it for \<open>sort\<close>: \<open>cmp a b\<close> is
  negative, zero or positive for "before", "tied" and "after"; ties are reflexive,
  symmetric and transitive, "before" is the converse of "after", and both are
  transitive.
\<close>

definition consistent_comparator :: "('a \<Rightarrow> 'a \<Rightarrow> int) \<Rightarrow> bool" where
  "consistent_comparator cmp =
     ((\<forall>a. cmp a a = 0)
      \<and> (\<forall>a b. cmp a b = 0 \<longrightarrow> cmp b a = 0)
      \<and> (\<forall>a b c. cmp a b = 0 \<and> cmp b c = 0 \<longrightarrow> cmp a c = 0)
      \<and> (\<forall>a b. cmp a b < 0 \<longleftrightarrow> cmp b a > 0)
      \<and> (\<forall>a b c. cmp a b < 0 \<and> cmp b c < 0 \<longrightarrow> cmp a c < 0)
      \<and> (\<forall>a b c. cmp a b > 0 \<and> cmp b c > 0 \<longrightarrow> cmp a c > 0))"

text \<open>
  The merged events of a caller: the events \<open>getEvents(afterId)\<close> gives for each ingestor
  whose key starts with \<open>callerAlias + ':'\<close>, appended in registry order.
\<close>

definition merged_events ::
  "string \<Rightarrow> int \<Rightarrow> (string \<times> ('d, 'z) BaseIngestor_scheme) list \<Rightarrow> 'd IngestedEvent list" where
  "merged_events callerAlias afterId ingestors =
     concat (map (\<lambda>(key, ingestor).
                    if afterId < 0 then buffered_events ingestor
                    else filter (\<lambda>e. afterId < event_id e) (buffered_events ingestor))
                 (filter (\<lambda>(key, ingestor). startsWith key (callerAlias @ '':'')) ingestors))"

text \<open>
  An example comparison (by character code, the order of ISO-8601 time stamps) and an
  example registry with two ingestors of \<open>alice\<close> and one of \<open>bob\<close>.
\<close>

fun code_unit_compare :: "string \<Rightarrow> string \<Rightarrow> int" where
  "code_unit_compare [] [] = 0"
| "code_unit_compare [] (y # ys) = - 1"
| "code_unit_compare (x # xs) [] = 1"
| "code_unit_compare (x # xs) (y # ys) =
     (if (of_char x :: nat) < of_char y then - 1
      else if (of_char y :: nat) < of_char x then 1
      else code_unit_compare xs ys)"

definition example_registry :: "(string \<times> string BaseIngestor) list" where
  "example_registry =
     [(''alice:github'',
       run_calls [PushEvent ''push'' ''a'' ''2024-01-01T00:00:02.000Z'']
         (new_BaseIngestor ''github'' Webhook no_secrets (Some 1))),
      (''bob:github'',
       run_calls [PushEvent ''push'' ''c'' ''2024-01-01T00:00:00.000Z'']
         (new_BaseIngestor ''github'' Webhook no_secrets (Some 1))),
      (''alice:stripe'',
       run_calls [PushEvent ''charge'' ''b'' ''2024-01-01T00:00:01.000Z'']
         (new_BaseIngestor ''stripe'' Webhook no_secrets (Some 1)))]"


section \<open>Override merge (IngestorManager.mergeIngestorConfig)\<close>

text \<open>
  Modelled from the spec: \<open>IngestorManager.mergeIngestorConfig\<close>, the type
  \<open>IngestorOverrides\<close> and the websocket fields \<open>guildIds\<close>, \<open>channelIds\<close>, \<open>userIds\<close> are
  not among the sources (only the tests of the function are). The spec: "deep merge of
  caller-scoped \<open>IngestorOverrides\<close> into the template: only fields whose shape is
  compatible with the template type are applied (\<open>intents/eventFilter/guildIds/
  channelIds/userIds\<close> only for websocket; \<open>intervalMs\<close> only for poll). The original
  template must not be mutated."

  Config objects live in a store, so that mutation of the template can be expressed: an
  \<open>IngestorConfig\<close> object holds its type and references to its optional blocks. The
  merge allocates a copy of the block it overrides and a new config object.
\<close>

record WebSocketIngestorConfig =
  gatewayUrl :: string
  protocol :: "string option"
  eventFilter_ws :: "string list option"
  intents :: "int option"
  guildIds :: "string list option"
  channelIds :: "string list option"
  userIds :: "string list option"

record PollIngestorConfig =
  url :: string
  intervalMs :: int
  method_p :: "string option"
  body_p :: "string option"
  deduplicateBy :: "string option"

record IngestorOverrides =
  intents_o :: "int option"
  eventFilter_o :: "string list option"
  guildIds_o :: "string list option"
  channelIds_o :: "string list option"
  userIds_o :: "string list option"
  intervalMs_o :: "int option"

text \<open>Modelled from the spec: the store of config objects, addressed by position.\<close>

datatype heap_object =
    ConfigObject IngestorType "nat option" "nat option" "nat option"
  | WebSocketBlock WebSocketIngestorConfig
  | WebhookBlock WebhookIngestorConfig
  | PollBlock PollIngestorConfig

type_synonym heap = "heap_object list"

definition heap_get :: "heap \<Rightarrow> nat \<Rightarrow> heap_object option" where
  "heap_get h a = (if a < length h then Some (h ! a) else None)"

definition alloc :: "heap \<Rightarrow> heap_object \<Rightarrow> heap \<times> nat" where
  "alloc h obj = (h @ [obj], length h)"

text \<open>
  Modelled from the spec: an override that is present replaces the template's field; the
  websocket fields are applied to a websocket template, \<open>intervalMs\<close> to a poll template;
  without overrides the template itself is the result.
\<close>

definition override :: "'a option \<Rightarrow> 'a option \<Rightarrow> 'a option" where
  "override new old = (case new of None \<Rightarrow> old | Some v \<Rightarrow> Some v)"

definition apply_websocket_overrides ::
  "IngestorOverrides \<Rightarrow> WebSocketIngestorConfig \<Rightarrow> WebSocketIngestorConfig" where
  "apply_websocket_overrides ov w =
     w \<lparr> intents := override (intents_o ov) (intents w),
         eventFilter_ws := override (eventFilter_o ov) (eventFilter_ws w),
         guildIds := override (guildIds_o ov) (guildIds w),
         channelIds := override (channelIds_o ov) (channelIds w),
         userIds := override (userIds_o ov) (userIds w) \<rparr>"

definition apply_poll_overrides :: "IngestorOverrides \<Rightarrow> PollIngestorConfig \<Rightarrow> PollIngestorConfig" where
  "apply_poll_overrides ov p =
     p \<lparr> intervalMs := (case intervalMs_o ov of None \<Rightarrow> intervalMs p | Some v \<Rightarrow> v) \<rparr>"

definition merge_websocket ::
  "IngestorOverrides \<Rightarrow> IngestorType \<Rightarrow> heap \<Rightarrow> nat option \<Rightarrow> heap \<times> nat option" where
  "merge_websocket ov ty h ws =
     (case ws of
        None \<Rightarrow> (h, None)
      | Some a \<Rightarrow>
          (case heap_get h a of
             Some (WebSocketBlock w) \<Rightarrow>
               if ty = Websocket
               then (case alloc h (WebSocketBlock (apply_websocket_overrides ov w)) of
                       (h', a') \<Rightarrow> (h', Some a'))
               else (h, Some a)
           | _ \<Rightarrow> (h, Some a)))"

definition merge_poll ::
  "IngestorOverrides \<Rightarrow> IngestorType \<Rightarrow> heap \<Rightarrow> nat option \<Rightarrow> heap \<times> nat option" where
  "merge_poll ov ty h pl =
     (case pl of
        None \<Rightarrow> (h, None)
      | Some a \<Rightarrow>
          (case heap_get h a of
             Some (PollBlock p) \<Rightarrow>
               if ty = Poll
               then (case alloc h (PollBlock (apply_poll_overrides ov p)) of
                       (h', a') \<Rightarrow> (h', Some a'))
               else (h, Some a)
           | _ \<Rightarrow> (h, Some a)))"

definition mergeIngestorConfig :: "heap \<Rightarrow> nat \<Rightarrow> IngestorOverrides option \<Rightarrow> heap \<times> nat" where
  "mergeIngestorConfig h template overrides =
     (case overrides of
        None \<Rightarrow> (h, template)
      | Some ov \<Rightarrow>
          (case heap_get h template of
             Some (ConfigObject ty ws wh pl) \<Rightarrow>
               (case merge_websocket ov ty h ws of
                  (h1, ws') \<Rightarrow>
                    (case merge_poll ov ty h1 pl of
                       (h2, pl') \<Rightarrow> alloc h2 (ConfigObject ty ws' wh pl')))
           | _ \<Rightarrow> (h, template)))"

text \<open>
  The value of a config object, read through its references (\<^term>\<open>None\<close> when the object
  or one of its blocks is missing), and the merged value the spec describes.
\<close>

record IngestorConfig =
  type_c :: IngestorType
  websocket :: "WebSocketIngestorConfig option"
  webhook :: "WebhookIngestorConfig option"
  poll :: "PollIngestorConfig option"

definition read_websocket :: "heap \<Rightarrow> nat option \<Rightarrow> WebSocketIngestorConfig option option" where
  "read_websocket h r =
     (case r of None \<Rightarrow> Some None
      | Some a \<Rightarrow> (case heap_get h a of Some (WebSocketBlock w) \<Rightarrow> Some (Some w) | _ \<Rightarrow> None))"

definition read_webhook :: "heap \<Rightarrow> nat option \<Rightarrow> WebhookIngestorConfig option option" where
  "read_webhook h r =
     (case r of None \<Rightarrow> Some None
      | Some a \<Rightarrow> (case heap_get h a of Some (WebhookBlock w) \<Rightarrow> Some (Some w) | _ \<Rightarrow> None))"

definition read_poll :: "heap \<Rightarrow> nat option \<Rightarrow> PollIngestorConfig option option" where
  "read_poll h r =
     (case r of None \<Rightarrow> Some None
      | Some a \<Rightarrow> (case heap_get h a of Some (PollBlock p) \<Rightarrow> Some (Some p) | _ \<Rightarrow> None))"

definition read_config :: "heap \<Rightarrow> nat \<Rightarrow> IngestorConfig option" where
  "read_config h a =
     (case heap_get h a of
        Some (ConfigObject ty ws wh pl) \<Rightarrow>
          (case (read_websocket h ws, read_webhook h wh, read_poll h pl) of
             (Some w, Some k, Some p) \<Rightarrow>
               Some \<lparr> type_c = ty, websocket = w, webhook = k, poll = p \<rparr>
           | _ \<Rightarrow> None)
      | _ \<Rightarrow> None)"

definition merged_config :: "IngestorOverrides \<Rightarrow> IngestorConfig \<Rightarrow> IngestorConfig" where
  "merged_config ov c =
     c \<lparr> websocket := (if type_c c = Websocket
                        then map_option (apply_websocket_overrides ov) (websocket c)
                        else websocket c),
         poll := (if type_c c = Poll
                   then map_option (apply_poll_overrides ov) (poll c)
                   else poll c) \<rparr>"

text \<open>The Discord template and the overrides of the test "should not mutate the original
  template config".\<close>

definition discord_heap :: heap where
  "discord_heap =
     [WebSocketBlock \<lparr> gatewayUrl = ''wss://gateway.discord.gg/?v=10&encoding=json'',
                        protocol = Some ''discord'', eventFilter_ws = None,
                        intents = Some 3276799, guildIds = None, channelIds = None,
                        userIds = None \<rparr>,
      ConfigObject Websocket (Some 0) None None]"

definition discord_config :: IngestorConfig where
  "discord_config =
     \<lparr> type_c = Websocket,
       websocket = Some \<lparr> gatewayUrl = ''wss://gateway.discord.gg/?v=10&encoding=json'',
                          protocol = Some ''discord'', eventFilter_ws = None,
                          intents = Some 3276799, guildIds = None, channelIds = None,
                          userIds = None \<rparr>,
       webhook = None, poll = None \<rparr>"

definition guild_overrides :: IngestorOverrides where
  "guild_overrides =
     \<lparr> intents_o = Some 1, eventFilter_o = None, guildIds_o = Some [''999''],
       channelIds_o = None, userIds_o = None, intervalMs_o = Some 15000 \<rparr>"

section \<open>Properties of the ring buffer\<close>

lemma js_rem_nat: "0 < c \<Longrightarrow> js_rem (int a) (int c) = int (a mod c)"
  by (simp add: js_rem_def signed_modulo_int_def zmod_int sgn_if)

lemma mod_shift_neq:
  fixes a d c :: nat
  assumes "0 < d" "d < c"
  shows "(a + d) mod c \<noteq> a mod c"
proof
  assume "(a + d) mod c = a mod c"
  then have "c dvd (a + d) - a" by (simp add: mod_eq_dvd_iff_nat)
  then have "c dvd d" by simp
  with assms show False by (simp add: nat_dvd_not_less)
qed

lemma toArray_nat:
  assumes "rb_inv rb"
  shows "toArray rb =
     map (\<lambda>i. buffer rb ! ((head rb + capacity rb - count rb + i) mod capacity rb)) [0 ..< count rb]"
proof -
  from assms have c: "0 < capacity rb" and l: "length (buffer rb) = capacity rb"
    and n: "count rb \<le> capacity rb" by (auto simp: rb_inv_def)
  have e: "int (head rb) - int (count rb) + int (capacity rb)
          = int (head rb + capacity rb - count rb)"
    using n by simp
  show ?thesis
    using c l by (simp add: toArray_def e js_rem_nat js_get_def Let_def mod_add_left_eq flip: of_nat_add)
qed

lemma push_nat:
  assumes "rb_inv rb"
  shows "push x rb = rb \<lparr> buffer := (buffer rb)[head rb := Some x],
                          head := (head rb + 1) mod capacity rb,
                          count := min (count rb + 1) (capacity rb) \<rparr>"
proof -
  from assms have c: "0 < capacity rb" and l: "length (buffer rb) = capacity rb"
    and h: "head rb < capacity rb" and n: "count rb \<le> capacity rb" by (auto simp: rb_inv_def)
  have "js_rem (int (head rb) + 1) (int (capacity rb)) = int ((head rb + 1) mod capacity rb)"
    using js_rem_nat [OF c, of "Suc (head rb)"] by (simp add: add.commute)
  then show ?thesis
    using l h n by (simp add: push_def js_set_def Let_def min_def)
qed

lemma rb_inv_push: "rb_inv rb \<Longrightarrow> rb_inv (push x rb)"
  by (simp add: push_nat) (simp add: rb_inv_def)

lemma toArray_push:
  assumes "rb_inv rb"
  shows "toArray (push x rb) =
     (if count rb < capacity rb then toArray rb else tl (toArray rb)) @ [Some x]"
proof -
  from assms have c: "0 < capacity rb" and l: "length (buffer rb) = capacity rb"
    and h: "head rb < capacity rb" and n: "count rb \<le> capacity rb" by (auto simp: rb_inv_def)
  let ?c = "capacity rb" and ?h = "head rb" and ?n = "count rb"
  let ?s = "?h + ?c - ?n"
  let ?b = "(buffer rb)[?h := Some x]"
  have inv': "rb_inv (push x rb)" using assms by (rule rb_inv_push)
  have B: "toArray rb = map (\<lambda>i. buffer rb ! ((?s + i) mod ?c)) [0 ..< ?n]"
    by (rule toArray_nat [OF assms])
  show ?thesis
  proof (cases "?n < ?c")
    case True
    have A: "toArray (push x rb) =
       map (\<lambda>i. ?b ! (((?h + 1) mod ?c + ?c - (?n + 1) + i) mod ?c)) [0 ..< ?n + 1]"
      using True by (subst toArray_nat [OF inv']) (simp add: push_nat [OF assms])
    have start: "((?h + 1) mod ?c + ?c - (?n + 1) + i) mod ?c = (?s + i) mod ?c" for i
    proof -
      have e1: "(?h + 1) mod ?c + ?c - (?n + 1) + i = (?h + 1) mod ?c + (?c - (?n + 1) + i)"
        using True by linarith
      have e2: "(?h + 1) + (?c - (?n + 1) + i) = ?s + i"
        using True by linarith
      have "((?h + 1) mod ?c + ?c - (?n + 1) + i) mod ?c
            = ((?h + 1) mod ?c + (?c - (?n + 1) + i)) mod ?c"
        by (simp only: e1)
      also have "\<dots> = ((?h + 1) + (?c - (?n + 1) + i)) mod ?c"
        by (rule mod_add_left_eq)
      also have "\<dots> = (?s + i) mod ?c"
        by (simp only: e2)
      finally show ?thesis .
    qed
    have last: "(?s + ?n) mod ?c = ?h" using n h by simp
    have old: "?h \<noteq> (?s + i) mod ?c" if "i < ?n" for i
    proof -
      have "((?s + i) + (?n - i)) mod ?c \<noteq> (?s + i) mod ?c"
        using that True by (intro mod_shift_neq) auto
      moreover have "(?s + i) + (?n - i) = ?s + ?n" using that by simp
      ultimately show ?thesis using last by simp
    qed
    have "toArray (push x rb) = map (\<lambda>i. ?b ! ((?s + i) mod ?c)) [0 ..< ?n + 1]"
      unfolding A start ..
    also have "\<dots> = map (\<lambda>i. ?b ! ((?s + i) mod ?c)) [0 ..< ?n] @ [?b ! ((?s + ?n) mod ?c)]"
      by simp
    also have "map (\<lambda>i. ?b ! ((?s + i) mod ?c)) [0 ..< ?n] = toArray rb"
      unfolding B using old by simp
    also have "?b ! ((?s + ?n) mod ?c) = Some x"
      unfolding last using l h by simp
    finally show ?thesis using True by simp
  next
    case False
    then have full: "?n = ?c" using n by simp
    have A: "toArray (push x rb) =
       map (\<lambda>i. ?b ! (((?h + 1) mod ?c + i) mod ?c)) [0 ..< ?c]"
      using full by (subst toArray_nat [OF inv']) (simp add: push_nat [OF assms])
    have B': "toArray rb = map (\<lambda>i. buffer rb ! ((?h + i) mod ?c)) [0 ..< ?c]"
      unfolding B using full by simp
    have len: "length (toArray rb) = ?c"
      unfolding B' by simp
    have shift: "((?h + 1) mod ?c + i) mod ?c = (?h + Suc i) mod ?c" for i
      using mod_add_left_eq [of "?h + 1" ?c i] by simp
    have last: "(?h + ?c) mod ?c = ?h" using h by simp
    have old: "?h \<noteq> (?h + Suc i) mod ?c" if "Suc i < ?c" for i
      using mod_shift_neq [of "Suc i" ?c ?h] that h by simp
    have "toArray (push x rb) = tl (toArray rb) @ [Some x]"
    proof (rule nth_equalityI)
      show "length (toArray (push x rb)) = length (tl (toArray rb) @ [Some x])"
        unfolding A B' using c by simp
    next
      fix i assume "i < length (toArray (push x rb))"
      then have i: "i < ?c" unfolding A by simp
      have lhs: "toArray (push x rb) ! i = ?b ! ((?h + Suc i) mod ?c)"
        unfolding A shift using i by simp
      show "toArray (push x rb) ! i = (tl (toArray rb) @ [Some x]) ! i"
      proof (cases "Suc i < ?c")
        case True
        have "(tl (toArray rb) @ [Some x]) ! i = toArray rb ! Suc i"
          using True len by (auto simp: nth_append nth_tl)
        also have "\<dots> = buffer rb ! ((?h + Suc i) mod ?c)"
          unfolding B' using True by simp
        finally show ?thesis
          unfolding lhs using old [OF True] by simp
      next
        case False
        then have e: "Suc i = ?c" using i by simp
        have "(tl (toArray rb) @ [Some x]) ! i = Some x"
          using e len by (auto simp: nth_append)
        moreover have "?b ! ((?h + Suc i) mod ?c) = Some x"
          unfolding e last using l h by simp
        ultimately show ?thesis unfolding lhs by simp
      qed
    qed
    then show ?thesis using False by simp
  qed
qed


lemma rb_inv_new: "0 < c \<Longrightarrow> rb_inv (new_RingBuffer c)"
  by (simp add: rb_inv_def new_RingBuffer_def)

lemma toArray_new: "toArray (new_RingBuffer c) = []"
  by (simp add: toArray_def new_RingBuffer_def)

lemma pushes_snoc: "pushes (xs @ [x]) rb = push x (pushes xs rb)"
  by (simp add: pushes_def)

lemma rb_inv_pushes: "rb_inv rb \<Longrightarrow> rb_inv (pushes xs rb)"
  by (induction xs rule: rev_induct) (simp_all add: pushes_def rb_inv_push)

lemma capacity_push: "capacity (push x rb) = capacity rb"
  by (simp add: push_def Let_def)

lemma capacity_pushes: "capacity (pushes xs rb) = capacity rb"
  by (induction xs rule: rev_induct) (simp_all add: pushes_snoc capacity_push, simp add: pushes_def)

lemma count_push: "count (push x rb) = (if count rb < capacity rb then count rb + 1 else count rb)"
  by (simp add: push_def Let_def)

lemma pushes_new:
  assumes "0 < c"
  shows "toArray (pushes xs (new_RingBuffer c)) = map Some (drop (length xs - c) xs)
       \<and> count (pushes xs (new_RingBuffer c)) = min (length xs) c"
proof (induction xs rule: rev_induct)
  case Nil
  show ?case by (simp add: pushes_def toArray_new) (simp add: new_RingBuffer_def)
next
  case (snoc x xs)
  let ?rb = "pushes xs (new_RingBuffer c)"
  have inv: "rb_inv ?rb" using assms by (intro rb_inv_pushes rb_inv_new)
  have cap: "capacity ?rb = c" by (simp add: capacity_pushes) (simp add: new_RingBuffer_def)
  from snoc have arr: "toArray ?rb = map Some (drop (length xs - c) xs)"
    and cnt: "count ?rb = min (length xs) c" by simp_all
  have "toArray (push x ?rb) = map Some (drop (length (xs @ [x]) - c) (xs @ [x]))"
  proof (cases "length xs < c")
    case True
    then show ?thesis by (simp add: toArray_push [OF inv] cap cnt arr)
  next
    case False
    then have "Suc (length xs) - c = Suc (length xs - c)" by simp
    with False assms show ?thesis
      by (simp add: toArray_push [OF inv] cap cnt arr drop_Suc tl_drop flip: map_tl)
  qed
  moreover have "count (push x ?rb) = min (length (xs @ [x])) c"
    by (simp add: count_push cap cnt min_def)
  ultimately show ?case by (simp add: pushes_snoc)
qed

lemma hd_toArray_full:
  assumes "rb_inv rb" "count rb = capacity rb"
  shows "hd (toArray rb) = buffer rb ! head rb"
proof -
  from assms have c: "0 < capacity rb" and h: "head rb < capacity rb"
    by (auto simp: rb_inv_def)
  have "toArray rb = map (\<lambda>i. buffer rb ! ((head rb + i) mod capacity rb)) [0 ..< capacity rb]"
    using assms(2) by (simp add: toArray_nat [OF assms(1)])
  then show ?thesis using c h by (simp add: hd_map upt_conv_Cons)
qed

text \<open>
  C3. For a capacity \<open>c \<ge> 1\<close> and any pushes \<open>ps\<close> into a new ring buffer, \<open>toArray()\<close>
  is the last \<open>min (length ps) c\<close> pushes in push order (\<open>length ps - c\<close> is \<open>0\<close> when
  fewer than \<open>c\<close> were pushed), \<open>size\<close> is \<open>min (length ps) c\<close> and never exceeds \<open>c\<close>; a
  push at capacity writes over the cell of the oldest element, advances \<open>head\<close> modulo
  \<open>c\<close> and drops that oldest element from \<open>toArray()\<close>.
\<close>

theorem ring_buffer_pushes:
  assumes "1 \<le> c"
  shows "toArray (pushes ps (new_RingBuffer c)) = map Some (drop (length ps - c) ps)
       \<and> size_rb (pushes ps (new_RingBuffer c)) = min (length ps) c
       \<and> size_rb (pushes ps (new_RingBuffer c)) \<le> c
       \<and> (size_rb (pushes ps (new_RingBuffer c)) = c \<longrightarrow>
            (let rb = pushes ps (new_RingBuffer c) in
               buffer rb ! head rb = hd (toArray rb)
             \<and> buffer (push p rb) = (buffer rb) [head rb := Some p]
             \<and> head (push p rb) = (head rb + 1) mod c
             \<and> toArray (push p rb) = tl (toArray rb) @ [Some p]))"
proof -
  let ?rb = "pushes ps (new_RingBuffer c)"
  from assms have c: "0 < c" by simp
  have inv: "rb_inv ?rb" using c by (intro rb_inv_pushes rb_inv_new)
  have cap: "capacity ?rb = c" by (simp add: capacity_pushes) (simp add: new_RingBuffer_def)
  note main = pushes_new [OF c, of ps]
  have full: "buffer ?rb ! head ?rb = hd (toArray ?rb)
      \<and> buffer (push p ?rb) = (buffer ?rb) [head ?rb := Some p]
      \<and> head (push p ?rb) = (head ?rb + 1) mod c
      \<and> toArray (push p ?rb) = tl (toArray ?rb) @ [Some p]" if "count ?rb = c"
  proof -
    have "buffer ?rb ! head ?rb = hd (toArray ?rb)"
      using that cap by (simp add: hd_toArray_full [OF inv])
    moreover have "buffer (push p ?rb) = (buffer ?rb) [head ?rb := Some p]"
      by (simp add: push_nat [OF inv])
    moreover have "head (push p ?rb) = (head ?rb + 1) mod c"
      using cap by (simp add: push_nat [OF inv])
    moreover have "toArray (push p ?rb) = tl (toArray ?rb) @ [Some p]"
      using that cap by (simp add: toArray_push [OF inv])
    ultimately show ?thesis by simp
  qed
  show ?thesis
    using main full by (simp add: size_rb_def Let_def)
qed

theorem ring_buffer_pushes_witness:
  "(1::nat) \<le> 2
   \<and> toArray (pushes [10, 20, 30 :: nat] (new_RingBuffer 2)) = [Some 20, Some 30]
   \<and> size_rb (pushes [10, 20, 30 :: nat] (new_RingBuffer 2)) = 2
   \<and> toArray (push 40 (pushes [10, 20, 30 :: nat] (new_RingBuffer 2))) = [Some 30, Some 40]
   \<and> head (push 40 (pushes [10, 20, 30 :: nat] (new_RingBuffer 2))) = 0"
  using ring_buffer_pushes [of 2 "[10, 20, 30 :: nat]" 40]
  by (simp add: Let_def pushes_def push_def new_RingBuffer_def js_set_def js_rem_def
      signed_modulo_int_def)


section \<open>Properties of the base ingestor\<close>

lemma rb_inv_clear: "rb_inv rb \<Longrightarrow> rb_inv (clear rb)"
  by (simp add: rb_inv_def clear_def)

lemma toArray_clear: "toArray (clear rb) = []"
  by (simp add: toArray_def clear_def)

lemma ingestor_inv_new:
  "0 < buffer_capacity c \<Longrightarrow> ingestor_inv (new_BaseIngestor a ty secs c)"
  by (simp add: ingestor_inv_def new_BaseIngestor_def rb_inv_new toArray_new)

lemma set_tl_subset: "set (tl xs) \<subseteq> set xs"
  by (cases xs) auto

lemma sorted_wrt_tl: "sorted_wrt P xs \<Longrightarrow> sorted_wrt P (tl xs)"
  by (cases xs) simp_all

lemma ingestor_inv_pushEvent:
  assumes "ingestor_inv s"
  shows "ingestor_inv (pushEvent t d now s)"
proof -
  from assms have inv: "rb_inv (ring s)" by (simp add: ingestor_inv_def)
  let ?old = "if count (ring s) < capacity (ring s) then toArray (ring s) else tl (toArray (ring s))"
  have sub: "set ?old \<subseteq> set (toArray (ring s))"
    using set_tl_subset [of "toArray (ring s)"] by auto
  have srt: "sorted_wrt (<) (map (\<lambda>x. event_id (the x)) ?old)"
    using assms by (auto simp: ingestor_inv_def map_tl sorted_wrt_tl)
  have bnd: "\<forall>x \<in> set ?old. event_id (the x) < totalEventsReceived s"
    using assms sub by (auto simp: ingestor_inv_def list_all_iff)
  have nn: "None \<notin> set ?old"
    using assms sub by (auto simp: ingestor_inv_def)
  show ?thesis
    unfolding ingestor_inv_def pushEvent_def Let_def
    using srt bnd nn
    by (simp add: rb_inv_push [OF inv] toArray_push [OF inv] sorted_wrt_append list_all_iff
        del: set_map) (auto simp: less_imp_le)
qed

lemma ingestor_inv_apply_call: "ingestor_inv s \<Longrightarrow> ingestor_inv (apply_call s c)"
  by (cases c) (simp_all add: ingestor_inv_pushEvent, simp add: ingestor_inv_def rb_inv_clear toArray_clear)

lemma ingestor_inv_run_calls: "ingestor_inv s \<Longrightarrow> ingestor_inv (run_calls cs s)"
  unfolding run_calls_def
  by (induction cs arbitrary: s) (simp_all add: ingestor_inv_apply_call)

lemma ids_inv_new: "ids_inv (new_BaseIngestor a ty secs c)"
  by (simp add: ids_inv_def new_BaseIngestor_def)

lemma ids_inv_apply_call: "ids_inv s \<Longrightarrow> ids_inv (apply_call s c)"
  by (cases c) (auto simp: ids_inv_def pushEvent_def Let_def sorted_wrt_append list_all_iff)

lemma ids_inv_run_calls: "ids_inv s \<Longrightarrow> ids_inv (run_calls cs s)"
  unfolding run_calls_def
  by (induction cs arbitrary: s) (simp_all add: ids_inv_apply_call)

text \<open>
  C4. Take an ingestor after its constructor and any sequence of \<open>pushEvent\<close> calls
  (each evicting when the ring is full) and \<open>clear()\<close> calls on its ring. The next
  \<open>pushEvent\<close> hands out one more event, whose id is strictly greater than the id of
  every event handed out before; the ids of all events of the lifetime are strictly
  increasing.
\<close>

theorem event_ids_strictly_increasing:
  "let s = run_calls calls (new_BaseIngestor alias ty secs bufferSize :: 'd BaseIngestor);
       s' = pushEvent evType d now s
   in emitted s' = emitted s @ [last (emitted s')]
    \<and> (\<forall>e \<in> set (emitted s). event_id e < event_id (last (emitted s')))
    \<and> sorted_wrt (<) (map event_id (emitted s'))"
proof -
  define s where "s = run_calls calls (new_BaseIngestor alias ty secs bufferSize :: 'd BaseIngestor)"
  have inv: "ids_inv s" unfolding s_def by (intro ids_inv_run_calls ids_inv_new)
  have "ids_inv (apply_call s (PushEvent evType d now))" using inv by (rule ids_inv_apply_call)
  then have "sorted_wrt (<) (map event_id (emitted (pushEvent evType d now s)))"
    by (simp add: ids_inv_def)
  moreover have "\<forall>e \<in> set (emitted s). event_id e < event_id (last (emitted (pushEvent evType d now s)))"
    using inv by (simp add: ids_inv_def pushEvent_def Let_def list_all_iff)
  moreover have "emitted (pushEvent evType d now s) = emitted s @ [last (emitted (pushEvent evType d now s))]"
    by (simp add: pushEvent_def Let_def)
  ultimately show ?thesis unfolding s_def [symmetric] Let_def by simp
qed

theorem event_ids_strictly_increasing_witness:
  "map event_id (emitted (run_calls [PushEvent ''push'' ''a'' ''t0'', RingClear, PushEvent ''push'' ''b'' ''t1'']
        (new_BaseIngestor ''github'' Webhook no_secrets (Some 1) :: string BaseIngestor))) = [0, 1]
   \<and> event_id (last (emitted (pushEvent ''push'' ''c'' ''t2''
        (run_calls [PushEvent ''push'' ''a'' ''t0'', RingClear, PushEvent ''push'' ''b'' ''t1'']
          (new_BaseIngestor ''github'' Webhook no_secrets (Some 1) :: string BaseIngestor))))) = 2
   \<and> sorted_wrt (<) (map event_id (emitted (pushEvent ''push'' ''c'' ''t2''
        (run_calls [PushEvent ''push'' ''a'' ''t0'', RingClear, PushEvent ''push'' ''b'' ''t1'']
          (new_BaseIngestor ''github'' Webhook no_secrets (Some 1) :: string BaseIngestor)))))"
  using event_ids_strictly_increasing
    [of "[PushEvent ''push'' ''a'' ''t0'', RingClear, PushEvent ''push'' ''b'' ''t1'']"
        "''github''" Webhook no_secrets "Some 1" "''push''" "''c''" "''t2''"]
  by (simp add: Let_def run_calls_def pushEvent_def new_BaseIngestor_def)

lemma map_Some_the: "None \<notin> set xs \<Longrightarrow> map Some (map the xs) = xs"
  by (induction xs) auto

lemma getEvents_inv:
  assumes "ingestor_inv s"
  shows "toArray (ring s) = map Some (buffered_events s)"
    and "getEvents s a = Inr (map Some (if a < 0 then buffered_events s
                                       else filter (\<lambda>e. a < event_id e) (buffered_events s)))"
    and "sorted_wrt (<) (map event_id (buffered_events s))"
proof -
  from assms have nn: "None \<notin> set (toArray (ring s))"
    and srt: "sorted_wrt (<) (map (\<lambda>x. event_id (the x)) (toArray (ring s)))"
    by (simp_all add: ingestor_inv_def)
  show 1: "toArray (ring s) = map Some (buffered_events s)"
    unfolding buffered_events_def using map_Some_the [OF nn] by simp
  show "sorted_wrt (<) (map event_id (buffered_events s))"
    using srt by (simp add: buffered_events_def comp_def)
  show "getEvents s a = Inr (map Some (if a < 0 then buffered_events s
                                       else filter (\<lambda>e. a < event_id e) (buffered_events s)))"
    using nn by (simp add: getEvents_def since_def 1 filter_map comp_def)
qed

text \<open>
  C5. For an ingestor after its constructor (with a positive capacity) and any calls, and
  every integer \<open>afterId\<close>: the ring holds defined events only; \<open>getEvents(afterId)\<close>
  returns all of them, oldest first, when \<open>afterId < 0\<close>, and otherwise exactly those
  whose id is greater than \<open>afterId\<close>; the ids of the buffered events ascend, so both
  results are in ascending id order.
\<close>

theorem getEvents_after_cursor:
  assumes "0 < buffer_capacity bufferSize"
  shows "let s = run_calls calls (new_BaseIngestor alias ty secs bufferSize :: 'd BaseIngestor)
         in toArray (ring s) = map Some (buffered_events s)
          \<and> getEvents s afterId =
              Inr (map Some (if afterId < 0 then buffered_events s
                             else filter (\<lambda>e. afterId < event_id e) (buffered_events s)))
          \<and> sorted_wrt (<) (map event_id (buffered_events s))
          \<and> sorted_wrt (<) (map event_id (filter (\<lambda>e. afterId < event_id e) (buffered_events s)))"
proof -
  define s where "s = run_calls calls (new_BaseIngestor alias ty secs bufferSize :: 'd BaseIngestor)"
  have inv: "ingestor_inv s"
    unfolding s_def using assms by (intro ingestor_inv_run_calls ingestor_inv_new)
  note g = getEvents_inv [OF inv]
  have "sorted_wrt (<) (map event_id (filter (\<lambda>e. afterId < event_id e) (buffered_events s)))"
    using g(3) by (simp add: sorted_wrt_map sorted_wrt_filter)
  with g show ?thesis unfolding s_def [symmetric] Let_def by simp
qed

theorem getEvents_after_cursor_witness:
  "0 < buffer_capacity (Some 1)
   \<and> getEvents (run_calls [PushEvent ''push'' ''a'' ''t0'', PushEvent ''push'' ''b'' ''t1'']
        (new_BaseIngestor ''github'' Webhook no_secrets (Some 1) :: string BaseIngestor)) 0
      = Inr [Some \<lparr> event_id = 1, receivedAt = ''t1'', source = ''github'', eventType = ''push'',
                     data = ''b'' \<rparr>]
   \<and> getEvents (run_calls [PushEvent ''push'' ''a'' ''t0'', PushEvent ''push'' ''b'' ''t1'']
        (new_BaseIngestor ''github'' Webhook no_secrets (Some 1) :: string BaseIngestor)) 1
      = Inr []"
proof -
  have run: "run_calls [PushEvent ''push'' ''a'' ''t0'', PushEvent ''push'' ''b'' ''t1'']
        (new_BaseIngestor ''github'' Webhook no_secrets (Some 1) :: string BaseIngestor)
   = \<lparr> connectionAlias = ''github'', ingestorType = Webhook, secrets = no_secrets, state = Stopped,
       ring = \<lparr> capacity = 1,
                buffer = [Some \<lparr> event_id = 1, receivedAt = ''t1'', source = ''github'',
                                 eventType = ''push'', data = ''b'' \<rparr>],
                head = 0, count = 1 \<rparr>,
       totalEventsReceived = 2, lastEventAt = Some ''t1'', errorMessage = None,
       emitted = [\<lparr> event_id = 0, receivedAt = ''t0'', source = ''github'',
                                 eventType = ''push'', data = ''a'' \<rparr>,
                  \<lparr> event_id = 1, receivedAt = ''t1'', source = ''github'',
                                 eventType = ''push'', data = ''b'' \<rparr>] \<rparr>"
    by (simp add: run_calls_def pushEvent_def new_BaseIngestor_def buffer_capacity_def
        new_RingBuffer_def push_def js_set_def js_rem_def signed_modulo_int_def Let_def)
  have cap: "0 < buffer_capacity (Some 1)" by (simp add: buffer_capacity_def)
  show ?thesis
    using cap
      getEvents_after_cursor [OF cap, of "[PushEvent ''push'' ''a'' ''t0'', PushEvent ''push'' ''b'' ''t1'']"
        "''github''" Webhook no_secrets 0]
      getEvents_after_cursor [OF cap, of "[PushEvent ''push'' ''a'' ''t0'', PushEvent ''push'' ''b'' ''t1'']"
        "''github''" Webhook no_secrets 1]
    unfolding run Let_def
    by (simp add: buffered_events_def toArray_def js_get_def js_rem_def signed_modulo_int_def)
qed


section \<open>Properties of the GitHub webhook ingestor\<close>

lemma new_GitHubWebhookIngestor_fields:
  "signatureSecretName (new_GitHubWebhookIngestor alias secs cfg bufferSize) = signatureSecret cfg"
  "signatureHeaderName (new_GitHubWebhookIngestor alias secs cfg bufferSize) = signatureHeader cfg"
  "secrets (new_GitHubWebhookIngestor alias secs cfg bufferSize) = secs"
  "eventFilter (new_GitHubWebhookIngestor alias secs cfg bufferSize) = []"
  by (simp_all add: new_GitHubWebhookIngestor_def)

lemma handleWebhook_unverified:
  assumes "\<not> (truthy (signatureSecretName s) \<and> truthy (signatureHeaderName s))"
  shows "handleWebhook ex verify parse now headers rawBody s =
     (case parse rawBody of
        None \<Rightarrow> (Inr \<lparr> accepted = False, reason = Some ''Invalid JSON body'' \<rparr>, s)
      | Some parsed \<Rightarrow>
          if eventFilter s \<noteq> [] \<and> event (ex headers) \<notin> set (eventFilter s)
          then (Inr \<lparr> accepted = True, reason = Some ''Filtered out'' \<rparr>, s)
          else (Inr \<lparr> accepted = True, reason = None \<rparr>,
                pushEvent (event (ex headers))
                  \<lparr> deliveryId_d = deliveryId (ex headers), event_d = event (ex headers),
                    payload = parsed \<rparr> now s))"
proof -
  from assms have c: "(truthy (signatureSecretName s) \<and> truthy (signatureHeaderName s)) = False"
    by simp
  show ?thesis unfolding handleWebhook_def Let_def c by simp
qed

lemma handleWebhook_no_secret:
  assumes "truthy (signatureSecretName s)" and "truthy (signatureHeaderName s)"
    and "falsy (get_property (secrets s) (the (signatureSecretName s)))"
  shows "handleWebhook ex verify parse now headers rawBody s
         = (Inr \<lparr> accepted = False, reason = Some ''Signature secret not configured'' \<rparr>, s)"
  using assms by (simp add: handleWebhook_def Let_def)

lemma handleWebhook_no_signature:
  assumes "truthy (signatureSecretName s)" and "truthy (signatureHeaderName s)"
    and "\<not> falsy (get_property (secrets s) (the (signatureSecretName s)))"
    and "\<not> truthy (signature (ex headers))"
  shows "handleWebhook ex verify parse now headers rawBody s
         = (Inr \<lparr> accepted = False, reason = Some ''Missing signature header'' \<rparr>, s)"
  using assms by (simp add: handleWebhook_def Let_def truthy_def split: option.splits)

lemma handleWebhook_raises:
  assumes "truthy (signatureSecretName s)" and "truthy (signatureHeaderName s)"
    and "\<not> falsy (get_property (secrets s) (the (signatureSecretName s)))"
    and "signature (ex headers) = Some sig" and "sig \<noteq> []"
    and "verify rawBody sig (get_property (secrets s) (the (signatureSecretName s))) = Inl e"
  shows "handleWebhook ex verify parse now headers rawBody s = (Inl e, s)"
  using assms by (simp add: handleWebhook_def Let_def)

lemma handleWebhook_bad_signature:
  assumes "truthy (signatureSecretName s)" and "truthy (signatureHeaderName s)"
    and "\<not> falsy (get_property (secrets s) (the (signatureSecretName s)))"
    and "signature (ex headers) = Some sig" and "sig \<noteq> []"
    and "verify rawBody sig (get_property (secrets s) (the (signatureSecretName s))) = Inr False"
  shows "handleWebhook ex verify parse now headers rawBody s
         = (Inr \<lparr> accepted = False, reason = Some ''Signature verification failed'' \<rparr>, s)"
  using assms by (simp add: handleWebhook_def Let_def)

lemma handleWebhook_verified:
  assumes "truthy (signatureSecretName s)" and "truthy (signatureHeaderName s)"
    and "\<not> falsy (get_property (secrets s) (the (signatureSecretName s)))"
    and "signature (ex headers) = Some sig" and "sig \<noteq> []"
    and "verify rawBody sig (get_property (secrets s) (the (signatureSecretName s))) = Inr True"
  shows "handleWebhook ex verify parse now headers rawBody s =
     (case parse rawBody of
        None \<Rightarrow> (Inr \<lparr> accepted = False, reason = Some ''Invalid JSON body'' \<rparr>, s)
      | Some parsed \<Rightarrow>
          if eventFilter s \<noteq> [] \<and> event (ex headers) \<notin> set (eventFilter s)
          then (Inr \<lparr> accepted = True, reason = Some ''Filtered out'' \<rparr>, s)
          else (Inr \<lparr> accepted = True, reason = None \<rparr>,
                pushEvent (event (ex headers))
                  \<lparr> deliveryId_d = deliveryId (ex headers), event_d = event (ex headers),
                    payload = parsed \<rparr> now s))"
  unfolding handleWebhook_def Let_def using assms by simp

text \<open>The outcomes of a call, by the checks in the order the code makes them.\<close>

lemma handleWebhook_outcomes:
  obtains
    (unverified) "\<not> (truthy (signatureSecretName s) \<and> truthy (signatureHeaderName s))"
  | (no_secret) "truthy (signatureSecretName s)" "truthy (signatureHeaderName s)"
      "falsy (get_property (secrets s) (the (signatureSecretName s)))"
  | (no_signature) "truthy (signatureSecretName s)" "truthy (signatureHeaderName s)"
      "\<not> falsy (get_property (secrets s) (the (signatureSecretName s)))"
      "\<not> truthy (signature (ex headers))"
  | (raises) sig e where "truthy (signatureSecretName s)" "truthy (signatureHeaderName s)"
      "\<not> falsy (get_property (secrets s) (the (signatureSecretName s)))"
      "signature (ex headers) = Some sig" "sig \<noteq> []"
      "verify rawBody sig (get_property (secrets s) (the (signatureSecretName s))) = Inl e"
  | (bad_signature) sig where "truthy (signatureSecretName s)" "truthy (signatureHeaderName s)"
      "\<not> falsy (get_property (secrets s) (the (signatureSecretName s)))"
      "signature (ex headers) = Some sig" "sig \<noteq> []"
      "verify rawBody sig (get_property (secrets s) (the (signatureSecretName s))) = Inr False"
  | (verified) sig where "truthy (signatureSecretName s)" "truthy (signatureHeaderName s)"
      "\<not> falsy (get_property (secrets s) (the (signatureSecretName s)))"
      "signature (ex headers) = Some sig" "sig \<noteq> []"
      "verify rawBody sig (get_property (secrets s) (the (signatureSecretName s))) = Inr True"
proof (cases "truthy (signatureSecretName s) \<and> truthy (signatureHeaderName s)")
  case False
  then show ?thesis by (rule unverified)
next
  case True
  then have t: "truthy (signatureSecretName s)" "truthy (signatureHeaderName s)" by simp_all
  show ?thesis
  proof (cases "falsy (get_property (secrets s) (the (signatureSecretName s)))")
    case True
    with t show ?thesis by (rule no_secret)
  next
    case nf: False
    show ?thesis
    proof (cases "truthy (signature (ex headers))")
      case False
      with t nf show ?thesis by (rule no_signature)
    next
      case True
      then obtain sig where sig: "signature (ex headers) = Some sig" "sig \<noteq> []"
        by (auto simp: truthy_def split: option.splits)
      show ?thesis
      proof (cases "verify rawBody sig (get_property (secrets s) (the (signatureSecretName s)))")
        case (Inl e)
        with t nf sig show ?thesis by (rule raises)
      next
        case (Inr ok)
        show ?thesis
        proof (cases ok)
          case True
          with Inr have "verify rawBody sig (get_property (secrets s) (the (signatureSecretName s))) = Inr True"
            by simp
          with t nf sig show ?thesis by (rule verified)
        next
          case False
          with Inr have "verify rawBody sig (get_property (secrets s) (the (signatureSecretName s))) = Inr False"
            by simp
          with t nf sig show ?thesis by (rule bad_signature)
        qed
      qed
    qed
  qed
qed

lemma handleWebhook_accepted:
  "returns_accepted (fst (handleWebhook ex verify parse now headers rawBody s)) \<longleftrightarrow>
     (if truthy (signatureSecretName s) \<and> truthy (signatureHeaderName s)
      then (\<exists>sig. \<not> falsy (get_property (secrets s) (the (signatureSecretName s)))
              \<and> signature (ex headers) = Some sig \<and> sig \<noteq> []
              \<and> verify rawBody sig (get_property (secrets s) (the (signatureSecretName s))) = Inr True)
           \<and> parse rawBody \<noteq> None
      else parse rawBody \<noteq> None)"
  by (auto simp: handleWebhook_def returns_accepted_def Let_def split: option.splits sum.splits if_splits)

text \<open>
  C1, as stated, fails: with \<open>signatureHeader\<close> configured and \<open>signatureSecret\<close> absent,
  a request that carries no signature at all is accepted, even by a verifier that
  rejects every signature.
\<close>

theorem github_header_only_counterexample:
  "fst (handleWebhook headers_as_given reject_all parse_object ''2024-01-01T00:00:00.000Z''
          unsigned_push ''{}''
          (new_GitHubWebhookIngestor ''github'' no_secrets header_only_config (Some 2)))
   = Inr \<lparr> accepted = True, reason = None \<rparr>"
  by (simp add: handleWebhook_unverified new_GitHubWebhookIngestor_fields header_only_config_def
      truthy_def parse_object_def)

text \<open>
  C1, amended. The constructor copies the two config fields, and a request is verified
  if and only if both \<open>signatureHeader\<close> and \<open>signatureSecret\<close> are present and non-empty:
  then it is accepted exactly when the lookup of the named secret in the resolved
  secrets gives a value that is neither \<open>undefined\<close> nor empty, the request has a
  non-empty signature, the verifier returns true for it and the body parses. If either
  field is absent (or empty) verification is skipped: the request is accepted exactly
  when its body parses.
\<close>

theorem github_verification_iff_both:
  "signatureSecretName (new_GitHubWebhookIngestor alias secs cfg bufferSize
       :: 'j GitHubWebhookIngestor) = signatureSecret cfg
   \<and> signatureHeaderName (new_GitHubWebhookIngestor alias secs cfg bufferSize
       :: 'j GitHubWebhookIngestor) = signatureHeader cfg
   \<and> (returns_accepted (fst (handleWebhook ex verify parse now headers rawBody s)) \<longleftrightarrow>
        (if truthy (signatureSecretName s) \<and> truthy (signatureHeaderName s)
         then (\<exists>sig. \<not> falsy (get_property (secrets s) (the (signatureSecretName s)))
                 \<and> signature (ex headers) = Some sig \<and> sig \<noteq> []
                 \<and> verify rawBody sig (get_property (secrets s) (the (signatureSecretName s)))
                     = Inr True)
              \<and> parse rawBody \<noteq> None
         else parse rawBody \<noteq> None))"
  using handleWebhook_accepted [of ex verify parse now headers rawBody s]
  by (simp only: new_GitHubWebhookIngestor_fields simp_thms)

theorem github_verification_iff_both_witness:
  "truthy (signatureSecretName (new_GitHubWebhookIngestor ''github'' github_secrets signed_config (Some 2)
       :: string GitHubWebhookIngestor))
   \<and> truthy (signatureHeaderName (new_GitHubWebhookIngestor ''github'' github_secrets signed_config (Some 2)
       :: string GitHubWebhookIngestor))
   \<and> returns_accepted (fst (handleWebhook headers_as_given accept_keyed parse_object ''2024-01-01T00:00:00.000Z''
          signed_push ''{}''
          (new_GitHubWebhookIngestor ''github'' github_secrets signed_config (Some 2))))
   \<and> \<not> returns_accepted (fst (handleWebhook headers_as_given accept_keyed parse_object ''2024-01-01T00:00:00.000Z''
          unsigned_push ''{}''
          (new_GitHubWebhookIngestor ''github'' github_secrets signed_config (Some 2))))
   \<and> \<not> truthy (signatureSecretName (new_GitHubWebhookIngestor ''github'' no_secrets header_only_config (Some 2)
       :: string GitHubWebhookIngestor))
   \<and> returns_accepted (fst (handleWebhook headers_as_given accept_keyed parse_object ''2024-01-01T00:00:00.000Z''
          unsigned_push ''{}''
          (new_GitHubWebhookIngestor ''github'' no_secrets header_only_config (Some 2))))"
  using github_verification_iff_both [of "''github''" github_secrets signed_config "Some 2"
          headers_as_given accept_keyed parse_object "''2024-01-01T00:00:00.000Z''" signed_push "''{}''"
          "new_GitHubWebhookIngestor ''github'' github_secrets signed_config (Some 2)"]
        github_verification_iff_both [of "''github''" github_secrets signed_config "Some 2"
          headers_as_given accept_keyed parse_object "''2024-01-01T00:00:00.000Z''" unsigned_push "''{}''"
          "new_GitHubWebhookIngestor ''github'' github_secrets signed_config (Some 2)"]
        github_verification_iff_both [of "''github''" no_secrets header_only_config "Some 2"
          headers_as_given accept_keyed parse_object "''2024-01-01T00:00:00.000Z''" unsigned_push "''{}''"
          "new_GitHubWebhookIngestor ''github'' no_secrets header_only_config (Some 2)"]
  by (simp add: new_GitHubWebhookIngestor_fields truthy_def signed_config_def header_only_config_def
      github_secrets_def no_secrets_def headers_as_given_def signed_push_def unsigned_push_def
      accept_keyed_def parse_object_def get_property_def falsy_def)

text \<open>
  C7, as stated, fails in two ways. A \<open>signatureHeader\<close> configured as the empty string
  is falsy, so verification is skipped and a request is accepted although the named
  secret is absent. And a secret name that is also the name of a member inherited from
  \<open>Object.prototype\<close>, such as \<open>constructor\<close>, is found by the lookup although the
  resolved secrets are empty: the answer to an unsigned request is then "Missing
  signature header".
\<close>

theorem github_configured_secret_counterexample:
  "signatureHeader empty_header_config = Some ''''
   \<and> signatureSecret empty_header_config = Some ''GITHUB_WEBHOOK_SECRET''
   \<and> no_secrets ''GITHUB_WEBHOOK_SECRET'' = None
   \<and> fst (handleWebhook headers_as_given reject_all parse_object ''2024-01-01T00:00:00.000Z''
          unsigned_push ''{}''
          (new_GitHubWebhookIngestor ''github'' no_secrets empty_header_config (Some 2)))
      = Inr \<lparr> accepted = True, reason = None \<rparr>
   \<and> signatureHeader inherited_name_config = Some ''X-Hub-Signature-256''
   \<and> signatureSecret inherited_name_config = Some ''constructor''
   \<and> no_secrets ''constructor'' = None
   \<and> fst (handleWebhook headers_as_given reject_all parse_object ''2024-01-01T00:00:00.000Z''
          unsigned_push ''{}''
          (new_GitHubWebhookIngestor ''github'' no_secrets inherited_name_config (Some 2)))
      = Inr \<lparr> accepted = False, reason = Some ''Missing signature header'' \<rparr>"
proof -
  let ?e = "new_GitHubWebhookIngestor ''github'' no_secrets empty_header_config (Some 2)
              :: string GitHubWebhookIngestor"
  let ?i = "new_GitHubWebhookIngestor ''github'' no_secrets inherited_name_config (Some 2)
              :: string GitHubWebhookIngestor"
  have 1: "fst (handleWebhook headers_as_given reject_all parse_object ''2024-01-01T00:00:00.000Z''
              unsigned_push ''{}'' ?e) = Inr \<lparr> accepted = True, reason = None \<rparr>"
    by (simp add: handleWebhook_unverified new_GitHubWebhookIngestor_fields empty_header_config_def
        truthy_def parse_object_def)
  have "handleWebhook headers_as_given reject_all parse_object ''2024-01-01T00:00:00.000Z''
              unsigned_push ''{}'' ?i
        = (Inr \<lparr> accepted = False, reason = Some ''Missing signature header'' \<rparr>, ?i)"
    by (rule handleWebhook_no_signature)
       (simp_all add: new_GitHubWebhookIngestor_fields inherited_name_config_def truthy_def
          no_secrets_def get_property_def falsy_def Object_prototype_members_def
          headers_as_given_def unsigned_push_def)
  then have 2: "fst (handleWebhook headers_as_given reject_all parse_object ''2024-01-01T00:00:00.000Z''
              unsigned_push ''{}'' ?i)
        = Inr \<lparr> accepted = False, reason = Some ''Missing signature header'' \<rparr>"
    by simp
  from 1 2 show ?thesis
    by (simp add: empty_header_config_def inherited_name_config_def no_secrets_def)
qed

text \<open>
  C7, amended. With both \<open>signatureHeader\<close> and \<open>signatureSecret\<close> configured as non-empty
  strings, the named secret absent from the resolved secrets, and the secret's name not
  the name of a member that every object inherits from \<open>Object.prototype\<close>, every
  request is answered \<open>{accepted: false, reason: "Signature secret not configured"}\<close> and
  the ingestor is left as it was: no event is pushed.
\<close>

theorem github_missing_secret_rejected:
  assumes "truthy (signatureSecretName s)" and "truthy (signatureHeaderName s)"
    and "secrets s (the (signatureSecretName s)) = None"
    and "the (signatureSecretName s) \<notin> set Object_prototype_members"
  shows "handleWebhook ex verify parse now headers rawBody s
         = (Inr \<lparr> accepted = False, reason = Some ''Signature secret not configured'' \<rparr>, s)"
proof -
  have "falsy (get_property (secrets s) (the (signatureSecretName s)))"
    using assms(3,4) by (simp add: get_property_def falsy_def)
  with assms(1,2) show ?thesis by (rule handleWebhook_no_secret)
qed

theorem github_missing_secret_rejected_witness:
  "truthy (signatureSecretName (new_GitHubWebhookIngestor ''github'' no_secrets signed_config (Some 2)
       :: string GitHubWebhookIngestor))
   \<and> truthy (signatureHeaderName (new_GitHubWebhookIngestor ''github'' no_secrets signed_config (Some 2)
       :: string GitHubWebhookIngestor))
   \<and> secrets (new_GitHubWebhookIngestor ''github'' no_secrets signed_config (Some 2)
       :: string GitHubWebhookIngestor) ''GITHUB_WEBHOOK_SECRET'' = None
   \<and> ''GITHUB_WEBHOOK_SECRET'' \<notin> set Object_prototype_members
   \<and> handleWebhook headers_as_given accept_keyed parse_object ''2024-01-01T00:00:00.000Z''
          signed_push ''{}'' (new_GitHubWebhookIngestor ''github'' no_secrets signed_config (Some 2))
      = (Inr \<lparr> accepted = False, reason = Some ''Signature secret not configured'' \<rparr>,
         new_GitHubWebhookIngestor ''github'' no_secrets signed_config (Some 2))"
proof -
  let ?s = "new_GitHubWebhookIngestor ''github'' no_secrets signed_config (Some 2) :: string GitHubWebhookIngestor"
  have 1: "truthy (signatureSecretName ?s)" and 2: "truthy (signatureHeaderName ?s)"
    by (simp_all add: new_GitHubWebhookIngestor_fields truthy_def signed_config_def)
  have n: "the (signatureSecretName ?s) = ''GITHUB_WEBHOOK_SECRET''"
    by (simp add: new_GitHubWebhookIngestor_fields signed_config_def)
  have 4: "secrets ?s ''GITHUB_WEBHOOK_SECRET'' = None"
    by (simp add: new_GitHubWebhookIngestor_fields no_secrets_def)
  have 5: "''GITHUB_WEBHOOK_SECRET'' \<notin> set Object_prototype_members"
    by (simp add: Object_prototype_members_def)
  have 3: "secrets ?s (the (signatureSecretName ?s)) = None"
    and 6: "the (signatureSecretName ?s) \<notin> set Object_prototype_members"
    unfolding n using 4 5 by simp_all
  from 1 2 4 5 github_missing_secret_rejected [OF 1 2 3 6, of headers_as_given accept_keyed
      parse_object "''2024-01-01T00:00:00.000Z''" signed_push "''{}''"]
  show ?thesis by (intro conjI)
qed

text \<open>
  C10. Whenever \<open>handleWebhook\<close> returns \<open>accepted: false\<close>, the ingestor after the call is
  the ingestor before it (ring buffer, \<open>totalEventsReceived\<close>, \<open>lastEventAt\<close>, lifecycle
  state and every other field), and the reason is one of the four rejections.
\<close>

theorem github_rejection_atomic:
  assumes "fst (handleWebhook ex verify parse now headers rawBody s) = Inr res"
    and "\<not> accepted res"
  shows "snd (handleWebhook ex verify parse now headers rawBody s) = s
       \<and> reason res
           \<in> {Some ''Signature secret not configured'', Some ''Missing signature header'',
               Some ''Signature verification failed'', Some ''Invalid JSON body''}"
proof -
  let ?r = "handleWebhook ex verify parse now headers rawBody s"
  from assms(1) have r: "?r = (Inr res, snd ?r)" by (simp add: prod_eq_iff)
  show ?thesis
  proof (cases rule: handleWebhook_outcomes
      [where s = s and ex = ex and headers = headers and verify = verify and rawBody = rawBody])
    case unverified
    from r have "s = snd ?r \<and> reason res = Some ''Invalid JSON body''"
      unfolding handleWebhook_unverified [OF unverified, of ex verify parse now headers rawBody]
      using assms(2) by (auto split: option.splits if_splits)
    then show ?thesis by simp
  next
    case no_secret
    with r assms(2) show ?thesis by (auto simp: handleWebhook_no_secret)
  next
    case no_signature
    with r assms(2) show ?thesis by (auto simp: handleWebhook_no_signature)
  next
    case (raises sig e)
    with r show ?thesis by (simp add: handleWebhook_raises)
  next
    case (bad_signature sig)
    with r assms(2) show ?thesis by (auto simp: handleWebhook_bad_signature)
  next
    case (verified sig)
    from r have "s = snd ?r \<and> reason res = Some ''Invalid JSON body''"
      unfolding handleWebhook_verified [where ex = ex and verify = verify and headers = headers
          and rawBody = rawBody and s = s and sig = sig and parse = parse and now = now, OF verified]
      using assms(2) by (auto split: option.splits if_splits)
    then show ?thesis by simp
  qed
qed

theorem github_rejection_atomic_witness:
  "fst (handleWebhook headers_as_given reject_all parse_object ''2024-01-01T00:00:00.000Z''
          signed_push ''{}'' (new_GitHubWebhookIngestor ''github'' github_secrets signed_config (Some 2)))
      = Inr \<lparr> accepted = False, reason = Some ''Signature verification failed'' \<rparr>
   \<and> snd (handleWebhook headers_as_given reject_all parse_object ''2024-01-01T00:00:00.000Z''
          signed_push ''{}'' (new_GitHubWebhookIngestor ''github'' github_secrets signed_config (Some 2)))
      = new_GitHubWebhookIngestor ''github'' github_secrets signed_config (Some 2)"
proof -
  let ?s = "new_GitHubWebhookIngestor ''github'' github_secrets signed_config (Some 2) :: string GitHubWebhookIngestor"
  have 1: "fst (handleWebhook headers_as_given reject_all parse_object
             ''2024-01-01T00:00:00.000Z'' signed_push ''{}'' ?s)
           = Inr \<lparr> accepted = False, reason = Some ''Signature verification failed'' \<rparr>"
    by (simp add: handleWebhook_def Let_def new_GitHubWebhookIngestor_fields truthy_def
        signed_config_def github_secrets_def get_property_def falsy_def headers_as_given_def
        signed_push_def reject_all_def)
  have 2: "\<not> accepted \<lparr> accepted = False, reason = Some ''Signature verification failed'' \<rparr>"
    by simp
  from 1 github_rejection_atomic [OF 1 2] show ?thesis by (intro conjI) (elim conjE, assumption)+
qed


section \<open>Properties of the Stripe and Trello verifiers\<close>








text \<open>The base64 codec: decoding undoes encoding.\<close>

lemma base64_char_range:
  assumes "n < 64"
  shows "base64_char n mod 256 \<noteq> 61" and "unbase64 (base64_char n mod 256) = Some n"
proof -
  consider "n < 26" | "26 \<le> n" "n < 52" | "52 \<le> n" "n < 62" | "n = 62" | "n = 63"
    using assms by linarith
  then show "base64_char n mod 256 \<noteq> 61"
    by cases (auto simp: base64_char_def)
  consider "n < 26" | "26 \<le> n" "n < 52" | "52 \<le> n" "n < 62" | "n = 62" | "n = 63"
    using assms by linarith
  then show "unbase64 (base64_char n mod 256) = Some n"
    by cases (auto simp: base64_char_def unbase64_def)
qed

lemma of_char_lt: "(of_char c :: nat) < 256"
proof -
  have "(of_char c :: nat) mod 256 = of_char c" by (rule of_char_mod_256)
  then show ?thesis by (metis mod_less_divisor zero_less_numeral)
qed

lemma sextet_bounds:
  fixes A B C :: nat
  assumes "B < 256" "C < 256"
  shows "(A mod 4) * 16 + B div 16 < 64" "(B mod 16) * 4 + C div 64 < 64"
    "C mod 64 < 64" "(A mod 4) * 16 < 64" "(B mod 16) * 4 < 64"
proof -
  have a: "A mod 4 < 4" and b: "B mod 16 < 16" by simp_all
  have bd: "B div 16 < 16" and cd: "C div 64 < 4" using assms by simp_all
  show "(A mod 4) * 16 + B div 16 < 64" using a bd by linarith
  show "(B mod 16) * 4 + C div 64 < 64" using b cd by linarith
  show "C mod 64 < 64" by simp
  show "(A mod 4) * 16 < 64" using a by linarith
  show "(B mod 16) * 4 < 64" using b by linarith
qed

lemma sextet_join:
  fixes A B C :: nat
  assumes "B < 256" "C < 256"
  shows "(A div 4) * 4 + ((A mod 4) * 16 + B div 16) div 16 = A"
    "(((A mod 4) * 16 + B div 16) mod 16) * 16 + ((B mod 16) * 4 + C div 64) div 4 = B"
    "(((B mod 16) * 4 + C div 64) mod 4) * 64 + C mod 64 = C"
    "(A div 4) * 4 + ((A mod 4) * 16) div 16 = A"
    "(((A mod 4) * 16 + B div 16) mod 16) * 16 + ((B mod 16) * 4) div 4 = B"
proof -
  have bd: "B div 16 < 16" and cd: "C div 64 < 4" using assms by simp_all
  have 1: "((A mod 4) * 16 + B div 16) div 16 = A mod 4" using bd by simp
  have 2: "((A mod 4) * 16 + B div 16) mod 16 = B div 16" using bd by simp
  have 3: "((B mod 16) * 4 + C div 64) div 4 = B mod 16" using cd by simp
  have 4: "((B mod 16) * 4 + C div 64) mod 4 = C div 64" using cd by simp
  show "(A div 4) * 4 + ((A mod 4) * 16 + B div 16) div 16 = A" unfolding 1 by simp
  show "(((A mod 4) * 16 + B div 16) mod 16) * 16 + ((B mod 16) * 4 + C div 64) div 4 = B"
    unfolding 2 3 by simp
  show "(((B mod 16) * 4 + C div 64) mod 4) * 64 + C mod 64 = C" unfolding 4 by simp
  show "(A div 4) * 4 + ((A mod 4) * 16) div 16 = A" by simp
  show "(((A mod 4) * 16 + B div 16) mod 16) * 16 + ((B mod 16) * 4) div 4 = B"
    unfolding 2 by simp
qed

lemma div4_bound: "(n::nat) < 256 \<Longrightarrow> n div 4 < 64"
  by simp

lemma takeWhile_b64:
  "n < 64 \<Longrightarrow> takeWhile (\<lambda>c. c mod 256 \<noteq> 61) (base64_char n # xs)
     = base64_char n # takeWhile (\<lambda>c. c mod 256 \<noteq> 61) xs"
  by (simp add: base64_char_range(1))

lemma map_filter_b64:
  "n < 64 \<Longrightarrow> List.map_filter (\<lambda>c. unbase64 (c mod 256)) (base64_char n # xs)
     = n # List.map_filter (\<lambda>c. unbase64 (c mod 256)) xs"
  by (simp add: map_filter_simps base64_char_range(2))

lemma base64_decode_cons:
  "n < 64 \<Longrightarrow> List.map_filter (\<lambda>c. unbase64 (c mod 256))
       (takeWhile (\<lambda>c. c mod 256 \<noteq> 61) (base64_char n # xs))
     = n # List.map_filter (\<lambda>c. unbase64 (c mod 256)) (takeWhile (\<lambda>c. c mod 256 \<noteq> 61) xs)"
  by (simp only: takeWhile_b64 map_filter_b64)

lemma base64_decode_encode: "base64_decode (base64_encode bs) = bs"
proof (induction bs rule: base64_encode.induct)
  case 1
  show ?case by (simp add: base64_decode_def map_filter_simps)
next
  case (2 a)
  let ?A = "of_char a :: nat"
  have A: "?A < 256" by (rule of_char_lt)
  have p: "?A div 4 < 64" using A by (rule div4_bound)
  have q: "(?A mod 4) * 16 < 64" using sextet_bounds(4) [of 0 0 ?A] by simp
  have "base64_decode (base64_encode [a]) = decode_sextets [?A div 4, (?A mod 4) * 16]"
    unfolding base64_decode_def base64_encode.simps
    by (simp only: base64_decode_cons [OF p] base64_decode_cons [OF q]) (simp add: map_filter_simps)
  also have "\<dots> = [char_of (?A div 4 * 4 + ((?A mod 4) * 16) div 16)]" by simp
  also have "\<dots> = [a]" using sextet_join(4) [of 0 0 ?A] by simp
  finally show ?case .
next
  case (3 a b)
  let ?A = "of_char a :: nat" and ?B = "of_char b :: nat"
  have A: "?A < 256" and B: "?B < 256" by (rule of_char_lt)+
  have p: "?A div 4 < 64" using A by (rule div4_bound)
  have q: "(?A mod 4) * 16 + ?B div 16 < 64" using sextet_bounds(1) [OF B B] .
  have r: "(?B mod 16) * 4 < 64" using sextet_bounds(5) [OF B B] .
  have "base64_decode (base64_encode [a, b])
        = decode_sextets [?A div 4, (?A mod 4) * 16 + ?B div 16, (?B mod 16) * 4]"
    unfolding base64_decode_def base64_encode.simps
    by (simp only: base64_decode_cons [OF p] base64_decode_cons [OF q] base64_decode_cons [OF r])
       (simp add: map_filter_simps)
  also have "\<dots> = [char_of (?A div 4 * 4 + ((?A mod 4) * 16 + ?B div 16) div 16),
                       char_of ((((?A mod 4) * 16 + ?B div 16) mod 16) * 16 + ((?B mod 16) * 4) div 4)]"
    by simp
  also have "\<dots> = [a, b]"
    unfolding sextet_join(1) [OF B B, of ?A] sextet_join(5) [OF B B, of ?A] by simp
  finally show ?case .
next
  case (4 a b c rest)
  let ?A = "of_char a :: nat" and ?B = "of_char b :: nat" and ?C = "of_char c :: nat"
  have A: "?A < 256" and B: "?B < 256" and C: "?C < 256" by (rule of_char_lt)+
  have p: "?A div 4 < 64" using A by (rule div4_bound)
  have q: "(?A mod 4) * 16 + ?B div 16 < 64" using sextet_bounds(1) [OF B C] .
  have r: "(?B mod 16) * 4 + ?C div 64 < 64" using sextet_bounds(2) [OF B C] .
  have s: "?C mod 64 < 64" by simp
  have "base64_decode (base64_encode (a # b # c # rest))
        = decode_sextets (?A div 4 # ((?A mod 4) * 16 + ?B div 16) # ((?B mod 16) * 4 + ?C div 64)
            # (?C mod 64)
            # List.map_filter (\<lambda>c. unbase64 (c mod 256))
                (takeWhile (\<lambda>c. c mod 256 \<noteq> 61) (base64_encode rest)))"
    unfolding base64_decode_def base64_encode.simps append.simps
    by (simp only: base64_decode_cons [OF p] base64_decode_cons [OF q] base64_decode_cons [OF r]
        base64_decode_cons [OF s])
  also have "\<dots> = [char_of (?A div 4 * 4 + ((?A mod 4) * 16 + ?B div 16) div 16),
                       char_of ((((?A mod 4) * 16 + ?B div 16) mod 16) * 16
                                + ((?B mod 16) * 4 + ?C div 64) div 4),
                       char_of ((((?B mod 16) * 4 + ?C div 64) mod 4) * 64 + ?C mod 64)]
                      @ base64_decode (base64_encode rest)"
    by (simp only: decode_sextets.simps base64_decode_def)
  also have "\<dots> = a # b # c # rest"
    unfolding sextet_join(1) [OF B C, of ?A] sextet_join(2) [OF B C, of ?A] sextet_join(3) [OF B C]
      "4.IH" by simp
  finally show ?case .
qed

lemma verifyTrelloSignature_iff:
  "verifyTrelloSignature rt rawBody header secret callbackUrl \<longleftrightarrow>
     base64_decode header = hmac rt Sha1 secret (toString_utf8 rt rawBody @ callbackUrl)"
  by (auto simp: verifyTrelloSignature_def timingSafeEqual_def Let_def base64_decode_encode)











lemma example_trello_digest:
  "toString_utf8 example_runtime ''{}'' @ js ''https://example.com/cb'' = js ''{}https://example.com/cb''"
  "base64_encode (hmac example_runtime Sha1 (js ''secret'') (js ''{}https://example.com/cb''))
     = js ''Fk6oJ+5MtNQbh3EnwxwKvHGwdpw=''"
  by (simp_all add: example_runtime_def example_hmac_def as_text_def base64_char_def js_def)




text \<open>
  C6. The claim is what the source documents (the \<open>catch\<close> branch is commented "Invalid
  base64 or length mismatch"), but the code does not do it: \<open>verifyTrelloSignature\<close>
  returns true if and only if the bytes that the lenient decoder makes of the header
  equal the HMAC-SHA1 digest of \<open>rawBody + callbackURL\<close> under the secret, so the
  base64 signature with an exclamation mark put in front of it, which is not valid
  base64 and is not equal to the signature, is accepted for every body, secret and
  callback URL.
\<close>

theorem trello_lenient_base64:
  "(verifyTrelloSignature rt rawBody header secret callbackUrl \<longleftrightarrow>
      base64_decode header = hmac rt Sha1 secret (toString_utf8 rt rawBody @ callbackUrl))
   \<and> unbase64 (of_char CHR ''!'') = None
   \<and> of_char CHR ''!'' # base64_encode (hmac rt Sha1 secret (toString_utf8 rt rawBody @ callbackUrl))
       \<noteq> base64_encode (hmac rt Sha1 secret (toString_utf8 rt rawBody @ callbackUrl))
   \<and> verifyTrelloSignature rt rawBody
        (of_char CHR ''!'' # base64_encode (hmac rt Sha1 secret (toString_utf8 rt rawBody @ callbackUrl)))
        secret callbackUrl"
proof -
  let ?sig = "base64_encode (hmac rt Sha1 secret (toString_utf8 rt rawBody @ callbackUrl))"
  have u: "unbase64 (of_char CHR ''!'') = None" by (simp add: unbase64_def)
  have "base64_decode (of_char CHR ''!'' # ?sig) = base64_decode ?sig"
    by (simp add: base64_decode_def map_filter_simps unbase64_def)
  then have "verifyTrelloSignature rt rawBody (of_char CHR ''!'' # ?sig) secret callbackUrl"
    unfolding verifyTrelloSignature_iff by (simp add: base64_decode_encode)
  with u show ?thesis
    using verifyTrelloSignature_iff [of rt rawBody header secret callbackUrl] by simp
qed

theorem trello_lenient_base64_witness:
  "base64_encode (hmac example_runtime Sha1 (js ''secret'')
       (toString_utf8 example_runtime ''{}'' @ js ''https://example.com/cb''))
     = js ''Fk6oJ+5MtNQbh3EnwxwKvHGwdpw=''
   \<and> verifyTrelloSignature example_runtime ''{}'' (js ''!Fk6oJ+5MtNQbh3EnwxwKvHGwdpw='')
        (js ''secret'') (js ''https://example.com/cb'')
   \<and> verifyTrelloSignature example_runtime ''{}'' (js ''Fk6oJ+5MtNQbh3EnwxwKvHGwdpw='')
        (js ''secret'') (js ''https://example.com/cb'')
   \<and> \<not> verifyTrelloSignature example_runtime ''{}'' (js ''Gk6oJ+5MtNQbh3EnwxwKvHGwdpw='')
        (js ''secret'') (js ''https://example.com/cb'')"
proof -
  have d: "base64_decode (js ''Gk6oJ+5MtNQbh3EnwxwKvHGwdpw='')
           \<noteq> hmac example_runtime Sha1 (js ''secret'') (js ''{}https://example.com/cb'')"
    by (simp add: base64_decode_def map_filter_simps unbase64_def js_def example_runtime_def
        example_hmac_def)
  have e: "js ''!Fk6oJ+5MtNQbh3EnwxwKvHGwdpw='' = of_char CHR ''!'' # js ''Fk6oJ+5MtNQbh3EnwxwKvHGwdpw=''"
    by (simp add: js_def)
  have 1: "verifyTrelloSignature example_runtime ''{}'' (js ''!Fk6oJ+5MtNQbh3EnwxwKvHGwdpw='')
        (js ''secret'') (js ''https://example.com/cb'')"
    using trello_lenient_base64 [of example_runtime "''{}''" "[]" "js ''secret''" "js ''https://example.com/cb''"]
    unfolding example_trello_digest e by simp
  have 2: "verifyTrelloSignature example_runtime ''{}'' (js ''Fk6oJ+5MtNQbh3EnwxwKvHGwdpw='')
        (js ''secret'') (js ''https://example.com/cb'')"
    using trello_lenient_base64 [of example_runtime "''{}''" "js ''Fk6oJ+5MtNQbh3EnwxwKvHGwdpw=''"
            "js ''secret''" "js ''https://example.com/cb''"]
      base64_decode_encode [of "hmac example_runtime Sha1 (js ''secret'') (js ''{}https://example.com/cb'')"]
    unfolding example_trello_digest by simp
  have 3: "\<not> verifyTrelloSignature example_runtime ''{}'' (js ''Gk6oJ+5MtNQbh3EnwxwKvHGwdpw='')
        (js ''secret'') (js ''https://example.com/cb'')"
    using trello_lenient_base64 [of example_runtime "''{}''" "js ''Gk6oJ+5MtNQbh3EnwxwKvHGwdpw=''"
            "js ''secret''" "js ''https://example.com/cb''"] d
    unfolding example_trello_digest by simp
  have 0: "base64_encode (hmac example_runtime Sha1 (js ''secret'')
       (toString_utf8 example_runtime ''{}'' @ js ''https://example.com/cb''))
     = js ''Fk6oJ+5MtNQbh3EnwxwKvHGwdpw=''"
    unfolding example_trello_digest ..
  from 0 1 2 3 show ?thesis by (intro conjI)
qed


section \<open>Properties of the ingestor manager\<close>

lemma cmp_total:
  assumes "consistent_comparator cmp"
  shows "cmp a b \<le> 0 \<or> cmp b a \<le> 0"
proof (cases "cmp a b \<le> 0")
  case False
  then have "cmp a b > 0" by simp
  then have "cmp b a < 0" using assms unfolding consistent_comparator_def by blast
  then show ?thesis by simp
qed simp

lemma cmp_trans:
  assumes c: "consistent_comparator cmp" and ab: "cmp a b \<le> 0" and bc: "cmp b c \<le> 0"
  shows "cmp a c \<le> 0"
proof (rule ccontr)
  assume "\<not> cmp a c \<le> 0"
  then have ac: "cmp a c > 0" by simp
  then have ca: "cmp c a < 0" using c unfolding consistent_comparator_def by blast
  from c have sym: "\<And>x y. cmp x y = 0 \<Longrightarrow> cmp y x = 0"
    and tr0: "\<And>x y z. cmp x y = 0 \<Longrightarrow> cmp y z = 0 \<Longrightarrow> cmp x z = 0"
    and trl: "\<And>x y z. cmp x y < 0 \<Longrightarrow> cmp y z < 0 \<Longrightarrow> cmp x z < 0"
    and refl: "\<And>x. cmp x x = 0"
    unfolding consistent_comparator_def by blast+
  consider "cmp a b < 0" | "cmp a b = 0" using ab by linarith
  then show False
  proof cases
    case 1
    have cb: "cmp c b < 0" using ca 1 by (rule trl)
    consider "cmp b c < 0" | "cmp b c = 0" using bc by linarith
    then show False
    proof cases
      case 1
      have "cmp c c < 0" using cb 1 by (rule trl)
      with refl show False by simp
    next
      case 2
      then have "cmp c b = 0" by (rule sym)
      with cb show False by simp
    qed
  next
    case 2
    consider "cmp b c < 0" | "cmp b c = 0" using bc by linarith
    then show False
    proof cases
      case 1
      then have "cmp b a < 0" using ca by (rule trl)
      moreover have "cmp b a = 0" using 2 by (rule sym)
      ultimately show False by simp
    next
      case 22: 2
      with 2 have "cmp a c = 0" by (rule tr0)
      with ac show False by simp
    qed
  qed
qed

lemma set_insert_by: "set (insert_by cmp x ys) = insert x (set ys)"
  by (induction ys) auto

lemma mset_insert_by: "mset (insert_by cmp x ys) = add_mset x (mset ys)"
  by (induction ys) auto

lemma mset_sort_by: "mset (sort_by cmp xs) = mset xs"
  unfolding sort_by_def by (induction xs) (simp_all add: mset_insert_by)

lemma sorted_insert_by:
  assumes c: "consistent_comparator cmp" and s: "sorted_wrt (\<lambda>a b. cmp a b \<le> 0) ys"
  shows "sorted_wrt (\<lambda>a b. cmp a b \<le> 0) (insert_by cmp x ys)"
  using s
proof (induction ys)
  case Nil
  show ?case by simp
next
  case (Cons y ys)
  show ?case
  proof (cases "cmp x y \<le> 0")
    case True
    have "\<forall>z \<in> set ys. cmp x z \<le> 0"
      using Cons.prems True cmp_trans [OF c] by auto
    with True Cons.prems show ?thesis by simp
  next
    case False
    then have "cmp y x \<le> 0" using cmp_total [OF c, of x y] by simp
    with False Cons show ?thesis by (auto simp: set_insert_by)
  qed
qed

lemma sorted_sort_by:
  "consistent_comparator cmp \<Longrightarrow> sorted_wrt (\<lambda>a b. cmp a b \<le> 0) (sort_by cmp xs)"
  unfolding sort_by_def by (induction xs) (simp_all add: sorted_insert_by)

lemma filter_tied_insert_by:
  assumes tied: "\<And>a b. P a \<Longrightarrow> P b \<Longrightarrow> cmp a b = 0"
  shows "filter P (insert_by cmp x ys) = (if P x then x # filter P ys else filter P ys)"
proof (induction ys)
  case Nil
  show ?case by simp
next
  case (Cons y ys)
  show ?case
  proof (cases "cmp x y \<le> 0")
    case True
    then show ?thesis by simp
  next
    case False
    then have "\<not> (P x \<and> P y)" using tied [of x y] by auto
    with False Cons show ?thesis by auto
  qed
qed

lemma filter_tied_sort_by:
  assumes "\<And>a b. P a \<Longrightarrow> P b \<Longrightarrow> cmp a b = 0"
  shows "filter P (sort_by cmp xs) = filter P xs"
  unfolding sort_by_def by (induction xs) (simp_all add: filter_tied_insert_by [of P cmp, OF assms])

lemma tied_with_key:
  assumes "consistent_comparator cmp" and "cmp k a = 0" and "cmp k b = 0"
  shows "cmp a b = 0"
proof -
  from assms(1) have sym: "\<And>x y. cmp x y = 0 \<Longrightarrow> cmp y x = 0"
    and tr0: "\<And>x y z. cmp x y = 0 \<Longrightarrow> cmp y z = 0 \<Longrightarrow> cmp x z = 0"
    unfolding consistent_comparator_def by blast+
  from assms(2) have "cmp a k = 0" by (rule sym)
  then show ?thesis using assms(3) by (rule tr0)
qed

text \<open>
  The stable sorted arrangement of a list is unique, so any stable sorting algorithm
  returns what \<open>sort_by\<close> computes.
\<close>

lemma stable_sorted_unique:
  assumes c: "consistent_comparator cmp"
    and sx: "sorted_wrt (\<lambda>a b. cmp a b \<le> 0) xs"
    and sy: "sorted_wrt (\<lambda>a b. cmp a b \<le> 0) ys"
    and st: "\<And>k. filter (\<lambda>z. cmp k z = 0) xs = filter (\<lambda>z. cmp k z = 0) ys"
  shows "xs = ys"
  using sx sy st
proof (induction xs arbitrary: ys)
  case Nil
  show ?case
  proof (cases ys)
    case (Cons y ys')
    have "cmp y y = 0" using c unfolding consistent_comparator_def by blast
    with Nil.prems(3) [of y] Cons show ?thesis by simp
  qed simp
next
  case (Cons x xs)
  from c have refl: "\<And>a. cmp a a = 0"
    and sym: "\<And>a b. cmp a b = 0 \<Longrightarrow> cmp b a = 0"
    and flip: "\<And>a b. cmp a b < 0 \<longleftrightarrow> cmp b a > 0"
    unfolding consistent_comparator_def by blast+
  have fx: "filter (\<lambda>z. cmp x z = 0) ys = x # filter (\<lambda>z. cmp x z = 0) xs"
    using Cons.prems(3) [of x] refl [of x] by simp
  then obtain y ys' where ys: "ys = y # ys'" by (cases ys) auto
  have tied: "cmp x y = 0"
  proof (rule ccontr)
    assume nt: "cmp x y \<noteq> 0"
    have "x \<in> set (filter (\<lambda>z. cmp x z = 0) ys)" unfolding fx by simp
    then have "x \<in> set ys" by simp
    with nt ys refl [of x] have "x \<in> set ys'" by auto
    with Cons.prems(2) ys have yx: "cmp y x \<le> 0" by simp
    have "y \<in> set (filter (\<lambda>z. cmp y z = 0) (x # xs))"
      using Cons.prems(3) [of y] ys refl [of y] by simp
    then have "y \<in> set (x # xs)"
      using filter_is_subset [of "\<lambda>z. cmp y z = 0" "x # xs"] by blast
    moreover have "y \<noteq> x" using nt refl [of x] by auto
    ultimately have "y \<in> set xs" by simp
    with Cons.prems(1) have xy: "cmp x y \<le> 0" by simp
    from nt xy have "cmp x y < 0" by simp
    then have "cmp y x > 0" by (simp add: flip)
    with yx show False by simp
  qed
  with fx ys have xy: "y = x" by simp
  have "xs = ys'"
  proof (rule Cons.IH)
    show "sorted_wrt (\<lambda>a b. cmp a b \<le> 0) xs" using Cons.prems(1) by simp
    show "sorted_wrt (\<lambda>a b. cmp a b \<le> 0) ys'" using Cons.prems(2) ys by simp
    fix k
    show "filter (\<lambda>z. cmp k z = 0) xs = filter (\<lambda>z. cmp k z = 0) ys'"
      using Cons.prems(3) [of k] ys xy by (simp split: if_splits)
  qed
  with ys xy show ?case by simp
qed

lemma sort_by_unique:
  assumes c: "consistent_comparator cmp"
    and "sorted_wrt (\<lambda>a b. cmp a b \<le> 0) ys"
    and "\<And>k. filter (\<lambda>z. cmp k z = 0) ys = filter (\<lambda>z. cmp k z = 0) xs"
  shows "ys = sort_by cmp xs"
proof (rule stable_sorted_unique [OF c assms(2) sorted_sort_by [OF c]])
  fix k
  have "\<And>a b. cmp k a = 0 \<Longrightarrow> cmp k b = 0 \<Longrightarrow> cmp a b = 0"
    by (rule tied_with_key [OF c])
  then have "filter (\<lambda>z. cmp k z = 0) (sort_by cmp xs) = filter (\<lambda>z. cmp k z = 0) xs"
    by (rule filter_tied_sort_by)
  with assms(3) [of k] show "filter (\<lambda>z. cmp k z = 0) ys = filter (\<lambda>z. cmp k z = 0) (sort_by cmp xs)"
    by simp
qed

lemma consistent_comparator_on:
  "consistent_comparator cmp \<Longrightarrow> consistent_comparator (\<lambda>a b. cmp (f a) (f b))"
  unfolding consistent_comparator_def by blast

lemma js_sort_defined: "js_sort cmp (map Some xs) = map Some (sort_by cmp xs)"
  by (simp add: js_sort_def List.map_filter_def filter_map comp_def)

lemma collect_events_inv:
  assumes "\<forall>(key, ingestor) \<in> set ingestors. ingestor_inv ingestor"
  shows "collect_events (callerAlias @ '':'') afterId ingestors
         = Inr (map Some (merged_events callerAlias afterId ingestors))"
  using assms
proof (induction ingestors)
  case Nil
  show ?case by (simp add: merged_events_def)
next
  case (Cons ki rest)
  obtain key ingestor where ki: "ki = (key, ingestor)" by (cases ki)
  from Cons.prems ki have inv: "ingestor_inv ingestor" by simp
  from Cons have IH: "collect_events (callerAlias @ '':'') afterId rest
         = Inr (map Some (merged_events callerAlias afterId rest))" by simp
  show ?case
    unfolding ki
    by (simp add: IH getEvents_inv(2) [OF inv] merged_events_def)
qed

lemma code_unit_compare_eq: "code_unit_compare a b = 0 \<longleftrightarrow> a = b"
  by (induction a b rule: code_unit_compare.induct) auto

lemma code_unit_compare_flip: "code_unit_compare a b < 0 \<longleftrightarrow> code_unit_compare b a > 0"
  by (induction a b rule: code_unit_compare.induct) auto

lemma code_unit_compare_trans:
  "code_unit_compare a b < 0 \<Longrightarrow> code_unit_compare b c < 0 \<Longrightarrow> code_unit_compare a c < 0"
proof (induction a arbitrary: b c)
  case Nil
  then show ?case by (cases b; cases c) (auto split: if_splits)
next
  case (Cons x xs)
  show ?case
  proof (cases b)
    case Nil
    with Cons.prems show ?thesis by simp
  next
    case b: (Cons y ys)
    show ?thesis
    proof (cases c)
      case Nil
      with Cons.prems b show ?thesis by (simp split: if_splits)
    next
      case c: (Cons z zs)
      show ?thesis
        using Cons.prems Cons.IH [of ys zs] unfolding b c
        by (auto split: if_splits)
    qed
  qed
qed

lemma consistent_code_unit_compare: "consistent_comparator code_unit_compare"
  unfolding consistent_comparator_def
proof (intro conjI allI impI)
  fix a b c :: string
  show "code_unit_compare a a = 0" by (simp add: code_unit_compare_eq)
  show "code_unit_compare a b = 0 \<Longrightarrow> code_unit_compare b a = 0" by (simp add: code_unit_compare_eq)
  show "code_unit_compare a b = 0 \<and> code_unit_compare b c = 0 \<Longrightarrow> code_unit_compare a c = 0"
    by (simp add: code_unit_compare_eq)
  show "code_unit_compare a b < 0 \<longleftrightarrow> 0 < code_unit_compare b a" by (rule code_unit_compare_flip)
  show "code_unit_compare a b < 0 \<and> code_unit_compare b c < 0 \<Longrightarrow> code_unit_compare a c < 0"
    using code_unit_compare_trans by blast
  show "0 < code_unit_compare a b \<and> 0 < code_unit_compare b c \<Longrightarrow> 0 < code_unit_compare a c"
    using code_unit_compare_trans [of c b a] by (simp add: code_unit_compare_flip)
qed

text \<open>
  C8. For every caller and every registry of running ingestors (each satisfying the
  ingestor invariant) and a consistent \<open>localeCompare\<close>: \<open>getAllEvents(caller, afterId)\<close>
  returns defined events only; they are a rearrangement of the merged events of the
  ingestors whose key starts with \<open>caller + ':'\<close>, in non-decreasing order of
  \<open>receivedAt\<close>; and for every time stamp the events tied with it keep the order in
  which the merge appended them.
\<close>

theorem getAllEvents_sorted_stable:
  assumes "consistent_comparator localeCompare"
    and "\<forall>(key, ingestor) \<in> set ingestors. ingestor_inv ingestor"
  shows "\<exists>sorted.
           getAllEvents localeCompare ingestors callerAlias afterId = Inr (map Some sorted)
         \<and> mset sorted = mset (merged_events callerAlias afterId ingestors)
         \<and> sorted_wrt (\<lambda>a b. localeCompare (receivedAt a) (receivedAt b) \<le> 0) sorted
         \<and> (\<forall>k. filter (\<lambda>x. localeCompare k (receivedAt x) = 0) sorted
                = filter (\<lambda>x. localeCompare k (receivedAt x) = 0)
                    (merged_events callerAlias afterId ingestors))"
proof -
  let ?cmp = "\<lambda>a b :: 'a IngestedEvent. localeCompare (receivedAt a) (receivedAt b)"
  let ?merged = "merged_events callerAlias afterId ingestors"
  have c: "consistent_comparator ?cmp"
    using assms(1) by (rule consistent_comparator_on)
  have "getAllEvents localeCompare ingestors callerAlias afterId = Inr (map Some (sort_by ?cmp ?merged))"
    by (simp add: getAllEvents_def collect_events_inv [OF assms(2)] js_sort_defined)
  moreover have "mset (sort_by ?cmp ?merged) = mset ?merged"
    by (rule mset_sort_by)
  moreover have "sorted_wrt (\<lambda>a b. ?cmp a b \<le> 0) (sort_by ?cmp ?merged)"
    using c by (rule sorted_sort_by)
  moreover have "filter (\<lambda>x. localeCompare k (receivedAt x) = 0) (sort_by ?cmp ?merged)
                 = filter (\<lambda>x. localeCompare k (receivedAt x) = 0) ?merged" for k
    by (rule filter_tied_sort_by) (rule tied_with_key [OF assms(1)])
  ultimately show ?thesis by blast
qed

theorem getAllEvents_sorted_stable_witness:
  "getAllEvents code_unit_compare example_registry ''alice'' (- 1)
     = Inr [Some \<lparr> event_id = 0, receivedAt = ''2024-01-01T00:00:01.000Z'', source = ''stripe'',
                    eventType = ''charge'', data = ''b'' \<rparr>,
            Some \<lparr> event_id = 0, receivedAt = ''2024-01-01T00:00:02.000Z'', source = ''github'',
                    eventType = ''push'', data = ''a'' \<rparr>]"
proof -
  have inv: "\<forall>(key, ingestor) \<in> set example_registry. ingestor_inv ingestor"
    by (simp add: example_registry_def ingestor_inv_run_calls ingestor_inv_new buffer_capacity_def)
  have run: "run_calls [PushEvent ty d now] (new_BaseIngestor al Webhook no_secrets (Some 1) :: string BaseIngestor)
     = \<lparr> connectionAlias = al, ingestorType = Webhook, secrets = no_secrets, state = Stopped,
         ring = \<lparr> capacity = 1,
                  buffer = [Some \<lparr> event_id = 0, receivedAt = now, source = al,
                                   eventType = ty, data = d \<rparr>],
                  head = 0, count = 1 \<rparr>,
         totalEventsReceived = 1, lastEventAt = Some now, errorMessage = None,
         emitted = [\<lparr> event_id = 0, receivedAt = now, source = al, eventType = ty, data = d \<rparr>] \<rparr>"
    for ty d now al
    by (simp add: run_calls_def pushEvent_def new_BaseIngestor_def buffer_capacity_def
        new_RingBuffer_def push_def js_set_def js_rem_def signed_modulo_int_def Let_def)
  show ?thesis
    using getAllEvents_sorted_stable [OF consistent_code_unit_compare inv, of "''alice''" "- 1"]
    unfolding example_registry_def run
    by (simp add: getAllEvents_def startsWith_def getEvents_def toArray_def js_get_def js_rem_def
        signed_modulo_int_def js_sort_def List.map_filter_def sort_by_def)
qed


section \<open>Properties of the override merge\<close>

lemma heap_get_append: "heap_get h a = Some obj \<Longrightarrow> heap_get (h @ more_objs) a = Some obj"
  by (auto simp: heap_get_def nth_append split: if_splits)

lemma heap_get_new: "heap_get (h @ [obj]) (length h) = Some obj"
  by (simp add: heap_get_def)

lemma read_websocket_append: "read_websocket h r = Some w \<Longrightarrow> read_websocket (h @ xs) r = Some w"
  by (auto simp: read_websocket_def heap_get_append split: option.splits heap_object.splits)

lemma read_webhook_append: "read_webhook h r = Some w \<Longrightarrow> read_webhook (h @ xs) r = Some w"
  by (auto simp: read_webhook_def heap_get_append split: option.splits heap_object.splits)

lemma read_poll_append: "read_poll h r = Some w \<Longrightarrow> read_poll (h @ xs) r = Some w"
  by (auto simp: read_poll_def heap_get_append split: option.splits heap_object.splits)

lemma read_config_append:
  assumes "read_config h a = Some c"
  shows "read_config (h @ xs) a = Some c"
proof -
  from assms obtain ty ws wh pl where obj: "heap_get h a = Some (ConfigObject ty ws wh pl)"
    by (auto simp: read_config_def split: option.splits heap_object.splits)
  from assms obj obtain w k p where
    r: "read_websocket h ws = Some w" "read_webhook h wh = Some k" "read_poll h pl = Some p"
    and c: "c = \<lparr> type_c = ty, websocket = w, webhook = k, poll = p \<rparr>"
    by (auto simp: read_config_def split: option.splits)
  show ?thesis
    using heap_get_append [OF obj, of xs] read_websocket_append [OF r(1), of xs]
      read_webhook_append [OF r(2), of xs] read_poll_append [OF r(3), of xs] c
    by (simp add: read_config_def)
qed

lemma merge_websocket_extends:
  assumes "merge_websocket ov ty h ws = (h1, ws')" and "read_websocket h ws = Some w"
  shows "\<exists>xs. h1 = h @ xs"
    and "read_websocket h1 ws' =
           Some (if ty = Websocket then map_option (apply_websocket_overrides ov) w else w)"
  using assms
  by (auto simp: merge_websocket_def read_websocket_def alloc_def heap_get_new
      split: option.splits heap_object.splits if_splits)

lemma merge_poll_extends:
  assumes "merge_poll ov ty h pl = (h1, pl')" and "read_poll h pl = Some p"
  shows "\<exists>xs. h1 = h @ xs"
    and "read_poll h1 pl' =
           Some (if ty = Poll then map_option (apply_poll_overrides ov) p else p)"
  using assms
  by (auto simp: merge_poll_def read_poll_def alloc_def heap_get_new
      split: option.splits heap_object.splits if_splits)

text \<open>
  C9. For every template in the store and every override set: after
  \<open>mergeIngestorConfig(template, overrides)\<close> every object that was in the store is
  unchanged and the template reads as it did before (deep equality); the result reads as
  the merged config, in which the websocket fields are overridden only for a websocket
  template and \<open>intervalMs\<close> only for a poll template, the webhook block and the type
  being the template's.
\<close>

theorem mergeIngestorConfig_frame:
  assumes "read_config h template = Some c"
    and "mergeIngestorConfig h template overrides = (h', result)"
  shows "take (length h) h' = h
       \<and> read_config h' template = Some c
       \<and> read_config h' result = Some (case overrides of None \<Rightarrow> c | Some ov \<Rightarrow> merged_config ov c)
       \<and> (\<forall>ov. overrides = Some ov \<longrightarrow>
             websocket (merged_config ov c)
               = (if type_c c = Websocket
                  then map_option (apply_websocket_overrides ov) (websocket c) else websocket c)
           \<and> poll (merged_config ov c)
               = (if type_c c = Poll
                  then map_option (apply_poll_overrides ov) (poll c) else poll c)
           \<and> webhook (merged_config ov c) = webhook c
           \<and> type_c (merged_config ov c) = type_c c)"
proof (cases overrides)
  case None
  with assms show ?thesis by (simp add: mergeIngestorConfig_def)
next
  case (Some ov)
  from assms(1) obtain ty ws wh pl where obj: "heap_get h template = Some (ConfigObject ty ws wh pl)"
    by (auto simp: read_config_def split: option.splits heap_object.splits)
  from assms(1) obj obtain w k p where
    r: "read_websocket h ws = Some w" "read_webhook h wh = Some k" "read_poll h pl = Some p"
    and c: "c = \<lparr> type_c = ty, websocket = w, webhook = k, poll = p \<rparr>"
    by (auto simp: read_config_def split: option.splits)
  obtain h1 ws' where m1: "merge_websocket ov ty h ws = (h1, ws')" by (cases "merge_websocket ov ty h ws")
  obtain h2 pl' where m2: "merge_poll ov ty h1 pl = (h2, pl')" by (cases "merge_poll ov ty h1 pl")
  from merge_websocket_extends [OF m1 r(1)] obtain xs1 where
    h1: "h1 = h @ xs1"
    and w': "read_websocket h1 ws' = Some (if ty = Websocket then map_option (apply_websocket_overrides ov) w else w)"
    by blast
  have p1: "read_poll h1 pl = Some p" unfolding h1 using r(3) by (rule read_poll_append)
  from merge_poll_extends [OF m2 p1] obtain xs2 where
    h2: "h2 = h1 @ xs2"
    and p': "read_poll h2 pl' = Some (if ty = Poll then map_option (apply_poll_overrides ov) p else p)"
    by blast
  from assms(2) Some obj m1 m2 have res: "h' = h2 @ [ConfigObject ty ws' wh pl']" "result = length h2"
    by (simp_all add: mergeIngestorConfig_def alloc_def)
  have ext: "h' = h @ (xs1 @ xs2 @ [ConfigObject ty ws' wh pl'])"
    unfolding res h2 h1 by simp
  have frame: "take (length h) h' = h" unfolding ext by simp
  have same: "read_config h' template = Some c"
    unfolding ext using assms(1) by (rule read_config_append)
  have "read_websocket h' ws' = Some (if ty = Websocket then map_option (apply_websocket_overrides ov) w else w)"
    using read_websocket_append [OF w', of "xs2 @ [ConfigObject ty ws' wh pl']"]
    unfolding res h2 by simp
  moreover have "read_webhook h' wh = Some k"
    unfolding ext using r(2) by (rule read_webhook_append)
  moreover have "read_poll h' pl' = Some (if ty = Poll then map_option (apply_poll_overrides ov) p else p)"
    unfolding res using p' by (rule read_poll_append)
  moreover have "heap_get h' result = Some (ConfigObject ty ws' wh pl')"
    unfolding res by (rule heap_get_new)
  ultimately have merged: "read_config h' result = Some (merged_config ov c)"
    by (simp add: read_config_def merged_config_def c)
  show ?thesis
    using frame same merged Some by (simp add: merged_config_def)
qed

theorem mergeIngestorConfig_frame_witness:
  "read_config discord_heap 1 = Some discord_config
   \<and> read_config (fst (mergeIngestorConfig discord_heap 1 (Some guild_overrides))) 1 = Some discord_config
   \<and> map_option type_c (read_config (fst (mergeIngestorConfig discord_heap 1 (Some guild_overrides)))
        (snd (mergeIngestorConfig discord_heap 1 (Some guild_overrides)))) = Some Websocket
   \<and> map_option (map_option intents \<circ> websocket)
        (read_config (fst (mergeIngestorConfig discord_heap 1 (Some guild_overrides)))
          (snd (mergeIngestorConfig discord_heap 1 (Some guild_overrides)))) = Some (Some (Some 1))
   \<and> map_option poll
        (read_config (fst (mergeIngestorConfig discord_heap 1 (Some guild_overrides)))
          (snd (mergeIngestorConfig discord_heap 1 (Some guild_overrides)))) = Some None"
proof -
  have r: "read_config discord_heap 1 = Some discord_config"
    by (simp add: read_config_def read_websocket_def read_webhook_def read_poll_def heap_get_def
        discord_heap_def discord_config_def)
  have m: "mergeIngestorConfig discord_heap 1 (Some guild_overrides)
           = (fst (mergeIngestorConfig discord_heap 1 (Some guild_overrides)),
              snd (mergeIngestorConfig discord_heap 1 (Some guild_overrides)))"
    by simp
  show ?thesis
    using r mergeIngestorConfig_frame [OF r m]
    by (simp add: merged_config_def discord_config_def apply_websocket_overrides_def
        override_def guild_overrides_def)
qed

end
